theory Spec2Isabelle
  imports Complex_Main "HOL-Library.Char_ord" "HOL-Library.List_Lexorder"
begin

section \<open>Data model (src/lib/types.ts)\<close>

text \<open>
  Every entity extends \<open>BaseRecord\<close>: a required \<open>id\<close> and the optional fields
  \<open>collectionId\<close>, \<open>collectionName\<close>, \<open>created\<close>, \<open>updated\<close>. An optional field
  is an \<open>option\<close>: \<open>None\<close> when the object has no such property. Strings are
  \<open>string\<close>, compared with \<open><\<close> lexicographically character by character, as
  JavaScript compares strings (by code unit; the two agree on ASCII text).
  \<open>sort_order\<close> is an \<open>int\<close>. A \<open>percentage\<close> is a JavaScript number, an
  IEEE 754 double: it is the \<open>real\<close> that the double denotes, and the one
  arithmetic operation the code applies to it, \<open>+\<close>, is \<open>double_add\<close> below,
  which rounds.
\<close>

datatype action = Create | Update | Delete

datatype resolution = Day | Week | Month | Year

record task =
  t_id :: string
  t_collectionId :: "string option"
  t_collectionName :: "string option"
  t_created :: "string option"
  t_updated :: "string option"
  t_project_id :: string
  t_display_id :: string
  t_name :: string
  t_sort_order :: int

record resource =
  r_id :: string
  r_collectionId :: "string option"
  r_collectionName :: "string option"
  r_created :: "string option"
  r_updated :: "string option"
  r_task_id :: string
  r_name :: string
  r_sort_order :: int

record allocation =
  a_id :: string
  a_collectionId :: "string option"
  a_collectionName :: "string option"
  a_created :: "string option"
  a_updated :: "string option"
  a_resource_id :: string
  a_date :: string
  a_percentage :: real
  a_color_hex :: string

text \<open>
  \<open>p_last_seen\<close> holds the number \<open>new Date(p.last_seen).getTime()\<close> yields
  (milliseconds since the epoch); parsing the ISO string is outside the model.
\<close>

record presence =
  p_id :: string
  p_collectionId :: "string option"
  p_collectionName :: "string option"
  p_created :: "string option"
  p_updated :: "string option"
  p_project_id :: string
  p_session_id :: string
  p_user_name :: string
  p_user_color :: string
  p_last_seen :: int

record project =
  pr_id :: string
  pr_collectionId :: "string option"
  pr_collectionName :: "string option"
  pr_created :: "string option"
  pr_updated :: "string option"
  pr_user_id :: string
  pr_name :: string
  pr_resolution :: resolution
  pr_start_date :: string
  pr_end_date :: string

text \<open>
  A realtime event \<open>RecordSubscription<T>\<close>: the action, one of \<open>create\<close>,
  \<open>update\<close> and \<open>delete\<close>, and the full record.
\<close>

record 'r record_subscription =
  ev_action :: action
  ev_record :: 'r

text \<open>
  \<open>Partial<Task>\<close> and \<open>Partial<Resource>\<close>: every property may be absent.
  \<open>Object.assign(target, updates)\<close> copies the properties that are present.
\<close>

record task_updates =
  tu_id :: "string option"
  tu_collectionId :: "string option"
  tu_collectionName :: "string option"
  tu_created :: "string option"
  tu_updated :: "string option"
  tu_project_id :: "string option"
  tu_display_id :: "string option"
  tu_name :: "string option"
  tu_sort_order :: "int option"

record resource_updates =
  ru_id :: "string option"
  ru_collectionId :: "string option"
  ru_collectionName :: "string option"
  ru_created :: "string option"
  ru_updated :: "string option"
  ru_task_id :: "string option"
  ru_name :: "string option"
  ru_sort_order :: "int option"







section \<open>Array helpers\<close>

text \<open>
  \<open>Array.prototype.findIndex\<close>: the first index whose element satisfies the
  predicate, \<open>None\<close> for the source's \<open>-1\<close>. \<open>Array.prototype.find\<close> is
  \<^const>\<open>List.find\<close>. \<open>splice(i, 1)\<close> removes the element at index \<open>i\<close>.
\<close>

fun findIndex :: "('a \<Rightarrow> bool) \<Rightarrow> 'a list \<Rightarrow> nat option" where
  "findIndex P [] = None"
| "findIndex P (x # xs) =
     (if P x then Some 0 else map_option Suc (findIndex P xs))"

definition splice1 :: "nat \<Rightarrow> 'a list \<Rightarrow> 'a list" where
  "splice1 i xs = take i xs @ drop (Suc i) xs"

definition startsWith :: "string \<Rightarrow> string \<Rightarrow> bool" where
  "startsWith s p = (take (length p) s = p)"

section \<open>Numbers\<close>

text \<open>
  The sum of two doubles is the double nearest to the exact sum, ties going to
  the even significand (the rounding of IEEE 754 that JavaScript prescribes for
  \<open>+\<close>). A double in the normal range has a significand of 53 bits: between
  \<open>2 ^ e\<close> and \<open>2 ^ (e + 1)\<close> the doubles are the multiples of
  \<open>2 ^ (e - 52)\<close>. Overflow to infinity, subnormal numbers, the sign of zero and
  \<open>NaN\<close> are outside the model; percentages and their sums stay far from them.
\<close>

definition round_half_even :: "real \<Rightarrow> int" where
  "round_half_even x =
     (let f = \<lfloor>x\<rfloor>; d = x - of_int f
      in if d < 1 / 2 then f else if d > 1 / 2 then f + 1 else if even f then f else f + 1)"

definition round_double :: "real \<Rightarrow> real" where
  "round_double x =
     (if x = 0 then 0
      else let e = \<lfloor>log 2 \<bar>x\<bar>\<rfloor>; ulp = 2 powi (e - 52)
           in of_int (round_half_even (x / ulp)) * ulp)"

definition double_add :: "real \<Rightarrow> real \<Rightarrow> real" where
  "double_add x y = round_double (x + y)"

section \<open>Aggregation (src/lib/utils.ts, computeTasksWithData of the store)\<close>

record resource_with_allocations =
  rwa_resource :: resource
  rwa_allocations :: "allocation list"
  rwa_allocationMap :: "(string \<times> allocation) list"

record computed =
  startDate :: "string option"
  endDate :: "string option"
  totalEffort :: real

record task_with_aggregation =
  twa_task :: task
  twa_resources :: "resource_with_allocations list"
  twa_computed :: computed

text \<open>
  \<open>Map.prototype.set\<close> on an insertion-ordered map: an existing key keeps its
  place and takes the new value, a new key is appended.
\<close>

fun map_set :: "'k \<Rightarrow> 'v \<Rightarrow> ('k \<times> 'v) list \<Rightarrow> ('k \<times> 'v) list" where
  "map_set k v [] = [(k, v)]"
| "map_set k v ((k', v') # m) =
     (if k' = k then (k, v) # m else (k', v') # map_set k v m)"

definition buildAllocationMap :: "allocation list \<Rightarrow> (string \<times> allocation) list" where
  "buildAllocationMap allocs = fold (\<lambda>alloc m. map_set (a_date alloc) alloc m) allocs []"

text \<open>
  The body of the inner loop of \<open>computeTaskAggregation\<close>. The tests
  \<open>!earliestDate\<close> and \<open>!latestDate\<close> hold for \<open>null\<close> and for the empty
  string; only otherwise are the two strings compared.
  \<open>totalEffort += allocation.percentage\<close> is an addition of doubles.
\<close>

definition aggregate_allocation :: "allocation \<Rightarrow> computed \<Rightarrow> computed" where
  "aggregate_allocation alloc c =
     \<lparr> startDate =
         (case startDate c of
            None \<Rightarrow> Some (a_date alloc)
          | Some earliestDate \<Rightarrow>
              if earliestDate = [] \<or> a_date alloc < earliestDate
              then Some (a_date alloc) else Some earliestDate),
       endDate =
         (case endDate c of
            None \<Rightarrow> Some (a_date alloc)
          | Some latestDate \<Rightarrow>
              if latestDate = [] \<or> a_date alloc > latestDate
              then Some (a_date alloc) else Some latestDate),
       totalEffort = double_add (totalEffort c) (a_percentage alloc) \<rparr>"

definition computeTaskAggregation :: "resource_with_allocations list \<Rightarrow> computed" where
  "computeTaskAggregation rs =
     (if length rs = 0
      then \<lparr> startDate = None, endDate = None, totalEffort = 0 \<rparr>
      else fold (\<lambda>r c. fold aggregate_allocation (rwa_allocations r) c) rs
             \<lparr> startDate = None, endDate = None, totalEffort = 0 \<rparr>)"

definition withAllocations :: "allocation list \<Rightarrow> resource \<Rightarrow> resource_with_allocations" where
  "withAllocations allocs r =
     (let resourceAllocations = filter (\<lambda>a. a_resource_id a = r_id r) allocs
      in \<lparr> rwa_resource = r,
           rwa_allocations = resourceAllocations,
           rwa_allocationMap = buildAllocationMap resourceAllocations \<rparr>)"

definition withAggregation ::
  "resource list \<Rightarrow> allocation list \<Rightarrow> task \<Rightarrow> task_with_aggregation" where
  "withAggregation rs allocs t =
     (let taskResources = filter (\<lambda>r. r_task_id r = t_id t) rs;
          resourcesWithAllocations = map (withAllocations allocs) taskResources
      in \<lparr> twa_task = t,
           twa_resources = resourcesWithAllocations,
           twa_computed = computeTaskAggregation resourcesWithAllocations \<rparr>)"

text \<open>
  \<open>sort((a, b) => a.sort_order - b.sort_order)\<close> is a stable sort by
  \<open>sort_order\<close>; \<^const>\<open>sort_key\<close> is the stable insertion sort.
\<close>

definition computeTasksWithData ::
  "task list \<Rightarrow> resource list \<Rightarrow> allocation list \<Rightarrow> task_with_aggregation list" where
  "computeTasksWithData ts rs allocs =
     sort_key (\<lambda>tw. t_sort_order (twa_task tw)) (map (withAggregation rs allocs) ts)"

section \<open>The store (project store: state and actions)\<close>

text \<open>
  The fields of \<open>ProjectState\<close> that the actions below read or write. The field
  \<open>subscription\<close> tells whether \<open>state.subscription\<close> is set; the state of
  the subscription object itself is in the section on the realtime subscription.
  The remaining fields (\<open>userPermission\<close>, \<open>isLoading\<close>, \<open>isSaving\<close>, the brush,
  \<open>userName\<close>, \<open>userColor\<close>, the presence handles) are touched by none of these
  actions and are left out.
\<close>

record store =
  project :: "project option"
  tasks :: "task list"
  resources :: "resource list"
  allocations :: "allocation list"
  tasksWithData :: "task_with_aggregation list"
  error :: "string option"
  subscription :: bool
  presenceList :: "presence list"
  sessionId :: string

definition initialState :: store where
  "initialState =
     \<lparr> project = None, tasks = [], resources = [], allocations = [],
       tasksWithData = [], error = None, subscription = False,
       presenceList = [], sessionId = [] \<rparr>"

text \<open>
  Each \<open>set((state) => ...)\<close> is one function from the committed state to the
  next one. The statement
  \<open>state.tasksWithData = computeTasksWithData(state.tasks, state.resources, state.allocations)\<close>
  that most recipes end with is \<open>recompute\<close>.
\<close>

definition recompute :: "store \<Rightarrow> store" where
  "recompute s =
     s\<lparr> tasksWithData := computeTasksWithData (tasks s) (resources s) (allocations s) \<rparr>"

text \<open>
  The value caught by a \<open>catch (error)\<close>, and
  \<open>error instanceof Error ? error.message : fallback\<close>.
\<close>

datatype thrown = ErrorObject string | OtherValue

fun errorMessage :: "thrown \<Rightarrow> string \<Rightarrow> string" where
  "errorMessage (ErrorObject message) fallback = message"
| "errorMessage OtherValue fallback = fallback"

subsection \<open>Tasks\<close>

definition addTask :: "task \<Rightarrow> store \<Rightarrow> store" where
  "addTask t s = recompute (s\<lparr> tasks := tasks s @ [t] \<rparr>)"

text \<open>
  \<open>createTaskAsync\<close> up to its \<open>await\<close>: the temporary task is added.
  \<open>now\<close> is the text of \<open>Date.now()\<close>, \<open>created\<close> and \<open>updated\<close> are the
  two \<open>new Date().toISOString()\<close>.
\<close>

definition createTaskAsync_begin ::
  "string \<Rightarrow> string \<Rightarrow> string \<Rightarrow> string \<Rightarrow> string \<Rightarrow> string \<Rightarrow> store \<Rightarrow> store" where
  "createTaskAsync_begin projectId displayId name now created updated s =
     (let sortOrder = int (length (tasks s)) + 1;
          tempId = ''temp_'' @ now;
          tempTask = \<lparr> t_id = tempId, t_collectionId = None, t_collectionName = None,
                       t_created = Some created, t_updated = Some updated,
                       t_project_id = projectId, t_display_id = displayId,
                       t_name = name, t_sort_order = sortOrder \<rparr>
      in addTask tempTask s)"

text \<open>The recipe run when \<open>api.createTask\<close> resolves with \<open>newTask\<close>.\<close>

definition createTaskAsync_resolved :: "string \<Rightarrow> task \<Rightarrow> store \<Rightarrow> store" where
  "createTaskAsync_resolved tempId newTask s =
     (let tempIndex = findIndex (\<lambda>t. t_id t = tempId) (tasks s);
          realIndex = findIndex (\<lambda>t. t_id t = t_id newTask) (tasks s)
      in recompute
           (case tempIndex of
              None \<Rightarrow> s
            | Some i \<Rightarrow>
                (case realIndex of
                   None \<Rightarrow> s\<lparr> tasks := (tasks s)[i := newTask] \<rparr>
                 | Some j \<Rightarrow> s\<lparr> tasks := splice1 i (tasks s) \<rparr>)))"

text \<open>The recipe run when \<open>api.createTask\<close> rejects.\<close>

definition createTaskAsync_rejected :: "string \<Rightarrow> thrown \<Rightarrow> store \<Rightarrow> store" where
  "createTaskAsync_rejected tempId err s =
     (recompute (s\<lparr> tasks := filter (\<lambda>t. t_id t \<noteq> tempId) (tasks s) \<rparr>))
       \<lparr> error := Some (errorMessage err ''Fehler beim Erstellen'') \<rparr>"




definition deleteTask :: "string \<Rightarrow> store \<Rightarrow> store" where
  "deleteTask ident s =
     (let resourceIds = map r_id (filter (\<lambda>r. r_task_id r = ident) (resources s))
      in recompute
           (s\<lparr> tasks := filter (\<lambda>t. t_id t \<noteq> ident) (tasks s),
               resources := filter (\<lambda>r. r_task_id r \<noteq> ident) (resources s),
               allocations :=
                 filter (\<lambda>a. a_resource_id a \<notin> set resourceIds) (allocations s) \<rparr>))"

subsection \<open>Resources\<close>

definition addResource :: "resource \<Rightarrow> store \<Rightarrow> store" where
  "addResource r s = recompute (s\<lparr> resources := resources s @ [r] \<rparr>)"

definition createResourceAsync_begin ::
  "string \<Rightarrow> string \<Rightarrow> string \<Rightarrow> string \<Rightarrow> string \<Rightarrow> store \<Rightarrow> store" where
  "createResourceAsync_begin taskId name now created updated s =
     (let taskResources = filter (\<lambda>r. r_task_id r = taskId) (resources s);
          sortOrder = int (length taskResources) + 1;
          tempId = ''temp_'' @ now;
          tempResource = \<lparr> r_id = tempId, r_collectionId = None, r_collectionName = None,
                           r_created = Some created, r_updated = Some updated,
                           r_task_id = taskId, r_name = name, r_sort_order = sortOrder \<rparr>
      in addResource tempResource s)"

definition createResourceAsync_resolved :: "string \<Rightarrow> resource \<Rightarrow> store \<Rightarrow> store" where
  "createResourceAsync_resolved tempId newResource s =
     (let tempIndex = findIndex (\<lambda>r. r_id r = tempId) (resources s);
          realIndex = findIndex (\<lambda>r. r_id r = r_id newResource) (resources s)
      in recompute
           (case tempIndex of
              None \<Rightarrow> s
            | Some i \<Rightarrow>
                (case realIndex of
                   None \<Rightarrow> s\<lparr> resources := (resources s)[i := newResource] \<rparr>
                 | Some j \<Rightarrow> s\<lparr> resources := splice1 i (resources s) \<rparr>)))"




subsection \<open>Allocations\<close>

text \<open>
  \<open>suffix\<close> is the text after \<open>temp_\<close> in the generated identifier
  (\<open>Date.now()\<close>, an underscore and the random part).
\<close>

definition setAllocation ::
  "string \<Rightarrow> string \<Rightarrow> real \<Rightarrow> string \<Rightarrow> string \<Rightarrow> string \<Rightarrow> string \<Rightarrow> store \<Rightarrow> store" where
  "setAllocation resourceId date percentage colorHex suffix created updated s =
     recompute
       (case findIndex (\<lambda>a. a_resource_id a = resourceId \<and> a_date a = date) (allocations s) of
          Some existingIndex \<Rightarrow>
            s\<lparr> allocations := (allocations s)
                 [existingIndex := (allocations s ! existingIndex)
                    \<lparr> a_percentage := percentage, a_color_hex := colorHex \<rparr>] \<rparr>
        | None \<Rightarrow>
            s\<lparr> allocations := allocations s @
                 [\<lparr> a_id = ''temp_'' @ suffix, a_collectionId = None,
                    a_collectionName = None, a_created = Some created,
                    a_updated = Some updated, a_resource_id = resourceId,
                    a_date = date, a_percentage = percentage,
                    a_color_hex = colorHex \<rparr>] \<rparr>)"

text \<open>
  The recipe run when \<open>api.upsertAllocation\<close> resolves with \<open>savedAllocation\<close>.
  It does not recompute \<open>tasksWithData\<close>.
\<close>

definition setAllocationAsync_resolved :: "string \<Rightarrow> string \<Rightarrow> allocation \<Rightarrow> store \<Rightarrow> store" where
  "setAllocationAsync_resolved resourceId date savedAllocation s =
     (case findIndex (\<lambda>a. a_resource_id a = resourceId \<and> a_date a = date) (allocations s) of
        Some i \<Rightarrow> s\<lparr> allocations := (allocations s)[i := savedAllocation] \<rparr>
      | None \<Rightarrow> s)"

definition setAllocationAsync_rejected :: "thrown \<Rightarrow> store \<Rightarrow> store" where
  "setAllocationAsync_rejected err s =
     s\<lparr> error := Some (errorMessage err ''Fehler beim Speichern'') \<rparr>"

definition removeAllocation :: "string \<Rightarrow> string \<Rightarrow> store \<Rightarrow> store" where
  "removeAllocation resourceId date s =
     recompute
       (s\<lparr> allocations :=
            filter (\<lambda>a. \<not> (a_resource_id a = resourceId \<and> a_date a = date)) (allocations s) \<rparr>)"

subsection \<open>Realtime event handlers\<close>

text \<open>
  In the \<open>create\<close> branches the early \<open>return\<close> leaves the state as it is
  (no recomputation). The call \<open>state.subscription.updateTaskIds(...)\<close> at the
  end of a recipe acts on the subscription object, modelled further down.
\<close>

definition handleTaskChange :: "task record_subscription \<Rightarrow> store \<Rightarrow> store" where
  "handleTaskChange event s =
     (let record = ev_record event in
      case ev_action event of
        Create \<Rightarrow>
          (case find (\<lambda>t. t_id t = t_id record) (tasks s) of
             Some existingById \<Rightarrow> s
           | None \<Rightarrow>
               recompute
                 (case findIndex (\<lambda>t. startsWith (t_id t) ''temp_'' \<and>
                                       t_project_id t = t_project_id record \<and>
                                       t_name t = t_name record) (tasks s) of
                    Some tempIndex \<Rightarrow> s\<lparr> tasks := (tasks s)[tempIndex := record] \<rparr>
                  | None \<Rightarrow> s\<lparr> tasks := tasks s @ [record] \<rparr>))
      | Update \<Rightarrow>
          recompute
            (case findIndex (\<lambda>t. t_id t = t_id record) (tasks s) of
               Some i \<Rightarrow> s\<lparr> tasks := (tasks s)[i := record] \<rparr>
             | None \<Rightarrow> s)
      | Delete \<Rightarrow>
          (let resourceIds =
                 map r_id (filter (\<lambda>r. r_task_id r = t_id record) (resources s))
           in recompute
                (s\<lparr> tasks := filter (\<lambda>t. t_id t \<noteq> t_id record) (tasks s),
                    resources := filter (\<lambda>r. r_task_id r \<noteq> t_id record) (resources s),
                    allocations :=
                      filter (\<lambda>a. a_resource_id a \<notin> set resourceIds) (allocations s) \<rparr>)))"

definition handleResourceChange :: "resource record_subscription \<Rightarrow> store \<Rightarrow> store" where
  "handleResourceChange event s =
     (let record = ev_record event in
      case ev_action event of
        Create \<Rightarrow>
          (case find (\<lambda>r. r_id r = r_id record) (resources s) of
             Some existingById \<Rightarrow> s
           | None \<Rightarrow>
               recompute
                 (case findIndex (\<lambda>r. startsWith (r_id r) ''temp_'' \<and>
                                       r_task_id r = r_task_id record \<and>
                                       r_name r = r_name record) (resources s) of
                    Some tempIndex \<Rightarrow> s\<lparr> resources := (resources s)[tempIndex := record] \<rparr>
                  | None \<Rightarrow> s\<lparr> resources := resources s @ [record] \<rparr>))
      | Update \<Rightarrow>
          recompute
            (case findIndex (\<lambda>r. r_id r = r_id record) (resources s) of
               Some i \<Rightarrow> s\<lparr> resources := (resources s)[i := record] \<rparr>
             | None \<Rightarrow> s)
      | Delete \<Rightarrow>
          recompute
            (s\<lparr> resources := filter (\<lambda>r. r_id r \<noteq> r_id record) (resources s),
                allocations :=
                  filter (\<lambda>a. a_resource_id a \<noteq> r_id record) (allocations s) \<rparr>))"

text \<open>
  In the \<open>create\<close> branch \<open>indexOf(exists)\<close> is the position \<open>find\<close> stopped
  at: the first element that satisfies the predicate.
\<close>

definition handleAllocationChange :: "allocation record_subscription \<Rightarrow> store \<Rightarrow> store" where
  "handleAllocationChange event s =
     (let record = ev_record event;
          sameKey = (\<lambda>a. a_resource_id a = a_resource_id record \<and> a_date a = a_date record)
      in recompute
        (case ev_action event of
           Create \<Rightarrow>
             (case find (\<lambda>a. a_id a = a_id record \<or> sameKey a) (allocations s) of
                None \<Rightarrow> s\<lparr> allocations := allocations s @ [record] \<rparr>
              | Some exists \<Rightarrow>
                  if a_id exists \<noteq> a_id record
                  then (case findIndex (\<lambda>a. a_id a = a_id record \<or> sameKey a)
                               (allocations s) of
                          Some i \<Rightarrow> s\<lparr> allocations := (allocations s)[i := record] \<rparr>
                        | None \<Rightarrow> s)
                  else s)
         | Update \<Rightarrow>
             (case findIndex (\<lambda>a. a_id a = a_id record) (allocations s) of
                Some i \<Rightarrow> s\<lparr> allocations := (allocations s)[i := record] \<rparr>
              | None \<Rightarrow>
                  (case findIndex sameKey (allocations s) of
                     Some tempIndex \<Rightarrow>
                       s\<lparr> allocations := (allocations s)[tempIndex := record] \<rparr>
                   | None \<Rightarrow> s))
         | Delete \<Rightarrow>
             s\<lparr> allocations := filter (\<lambda>a. a_id a \<noteq> a_id record) (allocations s) \<rparr>))"

subsection \<open>Presence\<close>

definition handlePresenceChange :: "presence record_subscription \<Rightarrow> store \<Rightarrow> store" where
  "handlePresenceChange event s =
     (let record = ev_record event in
      if p_session_id record = sessionId s then s
      else case ev_action event of
        Create \<Rightarrow>
          (case find (\<lambda>p. p_session_id p = p_session_id record) (presenceList s) of
             None \<Rightarrow> s\<lparr> presenceList := presenceList s @ [record] \<rparr>
           | Some exists \<Rightarrow> s)
      | Update \<Rightarrow>
          (case findIndex (\<lambda>p. p_session_id p = p_session_id record) (presenceList s) of
             Some i \<Rightarrow> s\<lparr> presenceList := (presenceList s)[i := record] \<rparr>
           | None \<Rightarrow> s\<lparr> presenceList := presenceList s @ [record] \<rparr>)
      | Delete \<Rightarrow>
          s\<lparr> presenceList := filter (\<lambda>p. p_id p \<noteq> p_id record) (presenceList s) \<rparr>)"

text \<open>
  The local part of the heartbeat callback of \<open>startPresence\<close> (run every ten
  seconds by \<open>setInterval\<close>); \<open>now\<close> is \<open>Date.now()\<close>.
\<close>

definition heartbeat :: "int \<Rightarrow> store \<Rightarrow> store" where
  "heartbeat now s =
     (case project s of
        None \<Rightarrow> s
      | Some p \<Rightarrow>
          (let thirtySecondsAgo = now - 30000
           in s\<lparr> presenceList :=
                  filter (\<lambda>p. p_last_seen p > thirtySecondsAgo) (presenceList s) \<rparr>))"

definition getOtherUsers :: "store \<Rightarrow> presence list" where
  "getOtherUsers s = filter (\<lambda>p. p_session_id p \<noteq> sessionId s) (presenceList s)"

section \<open>The realtime subscription (subscribeToProjectChanges)\<close>

text \<open>
  The closure of \<open>subscribeToProjectChanges\<close>: the project, the two membership
  sets, the two queues, and the callbacks handed to \<open>setTimeout\<close> that have not
  run yet, in the order they were scheduled.
\<close>

datatype timer = RetryResources | RetryAllocations

record subscription_state =
  projectId :: string
  taskIds :: "string set"
  resourceIds :: "string set"
  pendingResources :: "resource record_subscription list"
  pendingAllocations :: "allocation record_subscription list"
  timers :: "timer list"

text \<open>
  The callbacks are the store's handlers. A \<open>world\<close> is the committed store,
  the subscription's closure and the trace of callback invocations so far.
\<close>

datatype callback =
    OnTaskChange "task record_subscription"
  | OnResourceChange "resource record_subscription"
  | OnAllocationChange "allocation record_subscription"

record world =
  w_store :: store
  w_sub :: subscription_state
  w_calls :: "callback list"

text \<open>
  The store is a zustand store with the immer middleware: \<open>set(recipe)\<close> runs
  the recipe on a draft of the committed state and then commits the draft.
  A recipe of the store that calls \<open>updateTaskIds\<close> or \<open>updateResourceIds\<close>
  may thereby re-enter a handler, whose own \<open>set\<close> reads and commits the
  committed state, not the outer draft; when the outer recipe ends its draft is
  committed over that. So in a handler run from within a recipe the changes to
  the closure and the trace last, and the store it leaves is replaced by the
  outer draft.
\<close>

definition onAllocationChange :: "allocation record_subscription \<Rightarrow> world \<Rightarrow> world" where
  "onAllocationChange e w =
     w\<lparr> w_store := handleAllocationChange e (w_store w),
        w_calls := w_calls w @ [OnAllocationChange e] \<rparr>"

text \<open>The body of the loop of \<open>processPendingAllocations\<close>, and the function.\<close>

definition deliver_allocation :: "allocation record_subscription \<Rightarrow> world \<Rightarrow> world" where
  "deliver_allocation e w =
     (if a_resource_id (ev_record e) \<in> resourceIds (w_sub w)
      then onAllocationChange e w else w)"

definition processPendingAllocations :: "world \<Rightarrow> world" where
  "processPendingAllocations w =
     (let toProcess = pendingAllocations (w_sub w)
      in fold deliver_allocation toProcess
           (w\<lparr> w_sub := (w_sub w)\<lparr> pendingAllocations := [] \<rparr> \<rparr>))"

definition updateResourceIds :: "string list \<Rightarrow> world \<Rightarrow> world" where
  "updateResourceIds newResourceIds w =
     processPendingAllocations
       (w\<lparr> w_sub := (w_sub w)\<lparr> resourceIds := set newResourceIds \<rparr> \<rparr>)"

text \<open>
  \<open>handleResourceChange\<close> with its call into the subscription: skipped by the
  early \<open>return\<close> and when \<open>state.subscription\<close> is not set.
\<close>

definition handleResourceChange_set :: "resource record_subscription \<Rightarrow> world \<Rightarrow> world" where
  "handleResourceChange_set e w =
     (let s = w_store w;
          draft = handleResourceChange e s;
          returnsEarly = (ev_action e = Create \<and>
                          find (\<lambda>r. r_id r = r_id (ev_record e)) (resources s) \<noteq> None)
      in if returnsEarly \<or> \<not> subscription s then w\<lparr> w_store := draft \<rparr>
         else (updateResourceIds (map r_id (resources draft)) w)\<lparr> w_store := draft \<rparr>)"

definition onResourceChange :: "resource record_subscription \<Rightarrow> world \<Rightarrow> world" where
  "onResourceChange e w =
     handleResourceChange_set e (w\<lparr> w_calls := w_calls w @ [OnResourceChange e] \<rparr>)"

text \<open>The body of the loop of \<open>processPendingResources\<close>, and the function.\<close>

definition deliver_resource :: "resource record_subscription \<Rightarrow> world \<Rightarrow> world" where
  "deliver_resource e w =
     (if r_task_id (ev_record e) \<in> taskIds (w_sub w)
      then (let w' = onResourceChange e w in
            case ev_action e of
              Create \<Rightarrow>
                w'\<lparr> w_sub := (w_sub w')
                     \<lparr> resourceIds := insert (r_id (ev_record e)) (resourceIds (w_sub w')) \<rparr> \<rparr>
            | Delete \<Rightarrow>
                w'\<lparr> w_sub := (w_sub w')
                     \<lparr> resourceIds := resourceIds (w_sub w') - {r_id (ev_record e)} \<rparr> \<rparr>
            | Update \<Rightarrow> w')
      else w)"

definition processPendingResources :: "world \<Rightarrow> world" where
  "processPendingResources w =
     (let toProcess = pendingResources (w_sub w)
      in fold deliver_resource toProcess
           (w\<lparr> w_sub := (w_sub w)\<lparr> pendingResources := [] \<rparr> \<rparr>))"

definition updateTaskIds :: "string list \<Rightarrow> world \<Rightarrow> world" where
  "updateTaskIds newTaskIds w =
     processPendingResources (w\<lparr> w_sub := (w_sub w)\<lparr> taskIds := set newTaskIds \<rparr> \<rparr>)"

definition handleTaskChange_set :: "task record_subscription \<Rightarrow> world \<Rightarrow> world" where
  "handleTaskChange_set e w =
     (let s = w_store w;
          draft = handleTaskChange e s;
          returnsEarly = (ev_action e = Create \<and>
                          find (\<lambda>t. t_id t = t_id (ev_record e)) (tasks s) \<noteq> None)
      in if returnsEarly \<or> \<not> subscription s then w\<lparr> w_store := draft \<rparr>
         else (updateTaskIds (map t_id (tasks draft)) w)\<lparr> w_store := draft \<rparr>)"

definition onTaskChange :: "task record_subscription \<Rightarrow> world \<Rightarrow> world" where
  "onTaskChange e w =
     handleTaskChange_set e (w\<lparr> w_calls := w_calls w @ [OnTaskChange e] \<rparr>)"

text \<open>The three collection subscriptions, each run on one incoming event.\<close>

definition tasks_event :: "task record_subscription \<Rightarrow> world \<Rightarrow> world" where
  "tasks_event e w =
     (if t_project_id (ev_record e) = projectId (w_sub w)
      then (let w' = onTaskChange e w in
            case ev_action e of
              Create \<Rightarrow>
                processPendingResources
                  (w'\<lparr> w_sub := (w_sub w')
                       \<lparr> taskIds := insert (t_id (ev_record e)) (taskIds (w_sub w')) \<rparr> \<rparr>)
            | Delete \<Rightarrow>
                w'\<lparr> w_sub := (w_sub w')
                     \<lparr> taskIds := taskIds (w_sub w') - {t_id (ev_record e)} \<rparr> \<rparr>
            | Update \<Rightarrow> w')
      else w)"

definition resources_event :: "resource record_subscription \<Rightarrow> world \<Rightarrow> world" where
  "resources_event e w =
     (if r_task_id (ev_record e) \<in> taskIds (w_sub w)
      then (let w' = onResourceChange e w in
            case ev_action e of
              Create \<Rightarrow>
                processPendingAllocations
                  (w'\<lparr> w_sub := (w_sub w')
                       \<lparr> resourceIds := insert (r_id (ev_record e)) (resourceIds (w_sub w')) \<rparr> \<rparr>)
            | Delete \<Rightarrow>
                w'\<lparr> w_sub := (w_sub w')
                     \<lparr> resourceIds := resourceIds (w_sub w') - {r_id (ev_record e)} \<rparr> \<rparr>
            | Update \<Rightarrow> w')
      else if ev_action e = Create
      then w\<lparr> w_sub := (w_sub w)
                \<lparr> pendingResources := pendingResources (w_sub w) @ [e],
                  timers := timers (w_sub w) @ [RetryResources] \<rparr> \<rparr>
      else w)"

definition allocations_event :: "allocation record_subscription \<Rightarrow> world \<Rightarrow> world" where
  "allocations_event e w =
     (if a_resource_id (ev_record e) \<in> resourceIds (w_sub w)
      then onAllocationChange e w
      else if ev_action e = Create \<or> ev_action e = Update
      then w\<lparr> w_sub := (w_sub w)
                \<lparr> pendingAllocations := pendingAllocations (w_sub w) @ [e],
                  timers := timers (w_sub w) @ [RetryAllocations] \<rparr> \<rparr>
      else w)"

text \<open>The oldest scheduled \<open>setTimeout\<close> callback runs (100 ms after its event).\<close>

definition timer_fires :: "world \<Rightarrow> world" where
  "timer_fires w =
     (case timers (w_sub w) of
        [] \<Rightarrow> w
      | t # rest \<Rightarrow>
          (let w' = w\<lparr> w_sub := (w_sub w)\<lparr> timers := rest \<rparr> \<rparr>
           in case t of
                RetryResources \<Rightarrow> processPendingResources w'
              | RetryAllocations \<Rightarrow> processPendingAllocations w'))"

section \<open>Notions used to state the properties\<close>

text \<open>The allocations the aggregation of a task runs over, in loop order.\<close>

definition task_allocations :: "task \<Rightarrow> resource list \<Rightarrow> allocation list \<Rightarrow> allocation list" where
  "task_allocations t rs allocs =
     concat (map (\<lambda>r. filter (\<lambda>a. a_resource_id a = r_id r) allocs)
                 (filter (\<lambda>r. r_task_id r = t_id t) rs))"

text \<open>
  What the specification says a task's aggregation is: the earliest and the
  latest date among the allocations of the task's resources, and the sum of
  their percentages. The sum is the sum of doubles, taken from zero in loop
  order.
\<close>

definition task_allocation_dates :: "task \<Rightarrow> resource list \<Rightarrow> allocation list \<Rightarrow> string set" where
  "task_allocation_dates t rs allocs =
     a_date ` {a \<in> set allocs. \<exists>r\<in>set rs. r_task_id r = t_id t \<and> a_resource_id a = r_id r}"

definition double_sum :: "real list \<Rightarrow> real" where
  "double_sum xs = fold (\<lambda>x acc. double_add acc x) xs 0"

definition task_effort :: "task \<Rightarrow> resource list \<Rightarrow> allocation list \<Rightarrow> real" where
  "task_effort t rs allocs = double_sum (map a_percentage (task_allocations t rs allocs))"

definition specified_aggregation :: "task \<Rightarrow> resource list \<Rightarrow> allocation list \<Rightarrow> computed" where
  "specified_aggregation t rs allocs =
     (let dates = task_allocation_dates t rs allocs
      in \<lparr> startDate = (if dates = {} then None else Some (Min dates)),
           endDate = (if dates = {} then None else Some (Max dates)),
           totalEffort = task_effort t rs allocs \<rparr>)"

text \<open>Records for the concrete instances below.\<close>

definition example_task :: "string \<Rightarrow> string \<Rightarrow> int \<Rightarrow> task" where
  "example_task ident name order =
     \<lparr> t_id = ident, t_collectionId = None, t_collectionName = None,
       t_created = None, t_updated = None, t_project_id = ''p1'',
       t_display_id = ''1'', t_name = name, t_sort_order = order \<rparr>"

definition example_resource :: "string \<Rightarrow> string \<Rightarrow> string \<Rightarrow> resource" where
  "example_resource ident taskId name =
     \<lparr> r_id = ident, r_collectionId = None, r_collectionName = None,
       r_created = None, r_updated = None, r_task_id = taskId,
       r_name = name, r_sort_order = 1 \<rparr>"

definition example_allocation :: "string \<Rightarrow> string \<Rightarrow> string \<Rightarrow> real \<Rightarrow> allocation" where
  "example_allocation ident resourceId date percentage =
     \<lparr> a_id = ident, a_collectionId = None, a_collectionName = None,
       a_created = None, a_updated = None, a_resource_id = resourceId,
       a_date = date, a_percentage = percentage, a_color_hex = ''#30A14E'' \<rparr>"

definition example_tasks :: "task list" where
  "example_tasks = [example_task ''t1'' ''Design'' 1, example_task ''t2'' ''Build'' 2]"

definition example_resources :: "resource list" where
  "example_resources =
     [example_resource ''r1'' ''t1'' ''Alice'', example_resource ''r2'' ''t1'' ''Bob'']"

definition example_allocations :: "allocation list" where
  "example_allocations =
     [example_allocation ''a1'' ''r1'' ''2024-01-01'' 30,
      example_allocation ''a2'' ''r2'' ''2024-01-03'' 50]"

text \<open>A small store for the concrete instances.\<close>

definition update_event :: "'r \<Rightarrow> 'r record_subscription" where
  "update_event r = \<lparr> ev_action = Update, ev_record = r \<rparr>"

definition example_store :: store where
  "example_store =
     recompute (initialState\<lparr> tasks := example_tasks, resources := example_resources,
                            allocations := example_allocations \<rparr>)"

definition example_project :: project where
  "example_project =
     \<lparr> pr_id = ''p1'', pr_collectionId = None, pr_collectionName = None,
       pr_created = None, pr_updated = None, pr_user_id = ''u1'', pr_name = ''Plan'',
       pr_resolution = Day, pr_start_date = ''2024-01-01'',
       pr_end_date = ''2024-12-31'' \<rparr>"

definition example_presence :: "string \<Rightarrow> string \<Rightarrow> int \<Rightarrow> presence" where
  "example_presence ident session lastSeen =
     \<lparr> p_id = ident, p_collectionId = None, p_collectionName = None,
       p_created = None, p_updated = None, p_project_id = ''p1'',
       p_session_id = session, p_user_name = session, p_user_color = ''#E53935'',
       p_last_seen = lastSeen \<rparr>"

definition presence_store :: store where
  "presence_store =
     initialState\<lparr> project := Some example_project, sessionId := ''me'',
                   presenceList := [example_presence ''x1'' ''bob'' 0] \<rparr>"

text \<open>The store after a cell was painted with 30% and then repainted with 50%.\<close>

definition painted_store :: store where
  "painted_store =
     setAllocation ''r1'' ''2024-01-01'' 50 ''#3182BD'' ''2_b'' ''c2'' ''u2''
       (setAllocation ''r1'' ''2024-01-01'' 30 ''#30A14E'' ''1_a'' ''c1'' ''u1'' initialState)"

text \<open>
  The store after a cell holding 30% was repainted with 70% and the call of the
  first painting then resolved with the record the server saved.
\<close>

definition confirmed_store :: store where
  "confirmed_store =
     setAllocationAsync_resolved ''r1'' ''2024-01-01''
       (example_allocation ''a1'' ''r1'' ''2024-01-01'' 30)
       (setAllocation ''r1'' ''2024-01-01'' 70 ''#30A14E'' ''1_a'' ''c1'' ''u1'' example_store)"

text \<open>
  Referential integrity of the store: every resource's task and every
  allocation's resource is in the store.
\<close>

definition no_orphans :: "store \<Rightarrow> bool" where
  "no_orphans s =
     ((\<forall>r\<in>set (resources s). r_task_id r \<in> set (map t_id (tasks s))) \<and>
      (\<forall>a\<in>set (allocations s). a_resource_id a \<in> set (map r_id (resources s))))"

definition delete_event :: "'r \<Rightarrow> 'r record_subscription" where
  "delete_event r = \<lparr> ev_action = Delete, ev_record = r \<rparr>"

text \<open>
  An update that the rollback of \<open>updateTaskAsync\<close> can undo on a record: it
  leaves the identifier as it is, and it assigns an optional field only where
  the record has that field.
\<close>

definition restorable_task :: "task \<Rightarrow> task_updates \<Rightarrow> bool" where
  "restorable_task t u =
     ((tu_id u = None \<or> tu_id u = Some (t_id t)) \<and>
      (t_collectionId t = None \<longrightarrow> tu_collectionId u = None) \<and>
      (t_collectionName t = None \<longrightarrow> tu_collectionName u = None) \<and>
      (t_created t = None \<longrightarrow> tu_created u = None) \<and>
      (t_updated t = None \<longrightarrow> tu_updated u = None))"

definition restorable_resource :: "resource \<Rightarrow> resource_updates \<Rightarrow> bool" where
  "restorable_resource r u =
     ((ru_id u = None \<or> ru_id u = Some (r_id r)) \<and>
      (r_collectionId r = None \<longrightarrow> ru_collectionId u = None) \<and>
      (r_collectionName r = None \<longrightarrow> ru_collectionName u = None) \<and>
      (r_created r = None \<longrightarrow> ru_created u = None) \<and>
      (r_updated r = None \<longrightarrow> ru_updated u = None))"






text \<open>
  Exactly one copy of a created record: its server identifier occurs once among
  the identifiers of a collection and its temporary identifier does not occur.
\<close>

definition one_copy :: "string \<Rightarrow> string \<Rightarrow> string list \<Rightarrow> bool" where
  "one_copy serverId tempId ids = (count_list ids serverId = 1 \<and> count_list ids tempId = 0)"

definition create_event :: "'r \<Rightarrow> 'r record_subscription" where
  "create_event r = \<lparr> ev_action = Create, ev_record = r \<rparr>"





text \<open>
  The operations on the allocations of the store, to state a property of any
  sequence of them: painting, erasing, a resolved \<open>upsertAllocation\<close> and a
  realtime allocation event.
\<close>

datatype allocation_op =
    SetAllocation string string real string string string string
  | RemoveAllocation string string
  | SetAllocationResolved string string allocation
  | AllocationChange "allocation record_subscription"

fun apply_allocation_op :: "allocation_op \<Rightarrow> store \<Rightarrow> store" where
  "apply_allocation_op (SetAllocation resourceId date percentage colorHex suffix created updated) s =
     setAllocation resourceId date percentage colorHex suffix created updated s"
| "apply_allocation_op (RemoveAllocation resourceId date) s = removeAllocation resourceId date s"
| "apply_allocation_op (SetAllocationResolved resourceId date saved) s =
     setAllocationAsync_resolved resourceId date saved s"
| "apply_allocation_op (AllocationChange e) s = handleAllocationChange e s"

definition run_allocation_ops :: "allocation_op list \<Rightarrow> store \<Rightarrow> store" where
  "run_allocation_ops ops s = fold apply_allocation_op ops s"

definition allocations_at :: "string \<Rightarrow> string \<Rightarrow> store \<Rightarrow> allocation list" where
  "allocations_at resourceId date s =
     filter (\<lambda>a. a_resource_id a = resourceId \<and> a_date a = date) (allocations s)"

definition allocation_key :: "allocation \<Rightarrow> string \<times> string" where
  "allocation_key a = (a_resource_id a, a_date a)"

text \<open>
  An operation keeps the keys when the record confirmed by \<open>upsertAllocation\<close>
  has the resource and date that were asked for, and when an \<open>update\<close> event
  carries the resource and date of the stored allocation with its identifier.
\<close>

fun keeps_key :: "store \<Rightarrow> allocation_op \<Rightarrow> bool" where
  "keeps_key s (SetAllocationResolved resourceId date saved) =
     (a_resource_id saved = resourceId \<and> a_date saved = date)"
| "keeps_key s (AllocationChange e) =
     (case ev_action e of
        Update \<Rightarrow>
          (case find (\<lambda>a. a_id a = a_id (ev_record e)) (allocations s) of
             None \<Rightarrow> True
           | Some stored \<Rightarrow> allocation_key stored = allocation_key (ev_record e))
      | _ \<Rightarrow> True)"
| "keeps_key s _ = True"

fun keep_keys :: "store \<Rightarrow> allocation_op list \<Rightarrow> bool" where
  "keep_keys s [] = True"
| "keep_keys s (x # ops) = (keeps_key s x \<and> keep_keys (apply_allocation_op x s) ops)"

definition painting_ops :: "allocation_op list" where
  "painting_ops =
     [SetAllocation ''r1'' ''2024-01-01'' 30 ''#30A14E'' ''1_a'' ''c1'' ''u1'',
      SetAllocationResolved ''r1'' ''2024-01-01'' (example_allocation ''a1'' ''r1'' ''2024-01-01'' 30),
      AllocationChange (update_event (example_allocation ''a1'' ''r1'' ''2024-01-01'' 60)),
      SetAllocation ''r1'' ''2024-01-01'' 50 ''#30A14E'' ''2_b'' ''c2'' ''u2'',
      RemoveAllocation ''r2'' ''2024-01-01'']"

definition moving_ops :: "allocation_op list" where
  "moving_ops =
     [SetAllocation ''r1'' ''2024-01-01'' 50 ''#30A14E'' ''1_a'' ''c1'' ''u1'',
      AllocationChange (create_event (example_allocation ''a2'' ''r2'' ''2024-01-01'' 40)),
      AllocationChange (update_event (example_allocation ''a2'' ''r1'' ''2024-01-01'' 40))]"

text \<open>
  The trace of \<open>w'\<close> continues the trace of \<open>w\<close>; and a callback was invoked on
  the way from \<open>w\<close> to \<open>w'\<close>.
\<close>

definition extends :: "world \<Rightarrow> world \<Rightarrow> bool" where
  "extends w w' = (\<exists>new. w_calls w' = w_calls w @ new)"

definition invoked_during :: "world \<Rightarrow> world \<Rightarrow> callback \<Rightarrow> bool" where
  "invoked_during w w' c = (\<exists>before after. w_calls w' = w_calls w @ before @ [c] @ after)"

text \<open>
  A subscription of project \<open>p1\<close>, registered in the store, that knows no task
  and no resource yet; the \<open>create\<close> events of a task, of a resource of it and
  of an allocation of that resource.
\<close>

definition subscribed_world :: world where
  "subscribed_world =
     \<lparr> w_store = initialState\<lparr> subscription := True \<rparr>,
       w_sub = \<lparr> projectId = ''p1'', taskIds = {}, resourceIds = {},
                 pendingResources = [], pendingAllocations = [], timers = [] \<rparr>,
       w_calls = [] \<rparr>"

definition early_resource :: "resource record_subscription" where
  "early_resource = create_event (example_resource ''r1'' ''t1'' ''Alice'')"

definition late_task :: "task record_subscription" where
  "late_task = create_event (example_task ''t1'' ''Design'' 1)"

definition early_allocation :: "allocation record_subscription" where
  "early_allocation = create_event (example_allocation ''a1'' ''r1'' ''2024-01-01'' 30)"

section \<open>Properties of the addition of doubles\<close>

lemma round_half_even_of_int [simp]: "round_half_even (of_int m) = m"
  by (simp add: round_half_even_def)

lemma floor_log2_eq:
  assumes "0 < x" and "2 powi e \<le> x" and "x < 2 powi (e + 1)"
  shows "\<lfloor>log 2 x\<rfloor> = e"
proof -
  have a: "2 powr (of_int e) = (2::real) powi e"
    by (simp add: powr_real_of_int')
  have "2 powr (of_int (e + 1)) = (2::real) powi (e + 1)"
    by (rule powr_real_of_int') simp_all
  then have b: "2 powr (of_int e + 1) = (2::real) powi (e + 1)"
    by (simp only: of_int_add of_int_1)
  show ?thesis
    using assms a b by (simp add: floor_log_eq_powr_iff)
qed

lemma double_exponent_bounds:
  assumes "k \<noteq> 0" and "\<bar>k\<bar> < 2 ^ 53"
  shows "0 \<le> \<lfloor>log 2 \<bar>real_of_int k\<bar>\<rfloor>" and "\<lfloor>log 2 \<bar>real_of_int k\<bar>\<rfloor> \<le> 52"
proof -
  have one: "1 \<le> \<bar>real_of_int k\<bar>"
  proof -
    have "1 \<le> \<bar>k\<bar>"
      using assms(1) by linarith
    then have "real_of_int 1 \<le> real_of_int \<bar>k\<bar>"
      by (simp only: of_int_le_iff)
    then show ?thesis
      by simp
  qed
  then have "0 \<le> log 2 \<bar>real_of_int k\<bar>"
    by simp
  then show "0 \<le> \<lfloor>log 2 \<bar>real_of_int k\<bar>\<rfloor>"
    by simp
  have "\<bar>real_of_int k\<bar> < 2 ^ 53"
  proof -
    have "real_of_int \<bar>k\<bar> < real_of_int (2 ^ 53)"
      using assms(2) by (simp only: of_int_less_iff)
    then show ?thesis
      by simp
  qed
  then have "log 2 \<bar>real_of_int k\<bar> < 53"
    using one by (simp add: log_less_iff powr_realpow [symmetric] del: powr_numeral)
  then show "\<lfloor>log 2 \<bar>real_of_int k\<bar>\<rfloor> \<le> 52"
    by linarith
qed

lemma round_double_of_int:
  assumes "\<bar>k\<bar> < 2 ^ 53"
  shows "round_double (of_int k) = of_int k"
proof (cases "k = 0")
  case True
  then show ?thesis
    by (simp add: round_double_def)
next
  case False
  define e where "e = \<lfloor>log 2 \<bar>real_of_int k\<bar>\<rfloor>"
  have e: "0 \<le> e" "e \<le> 52"
    using double_exponent_bounds [OF False assms] by (simp_all add: e_def)
  define n where "n = nat (52 - e)"
  have ulp: "(2::real) powi (e - 52) = inverse (2 ^ n)"
    using e by (simp add: power_int_def n_def power_inverse power_one_over inverse_eq_divide)
  have "real_of_int k / inverse (2 ^ n) = of_int (k * 2 ^ n)"
    by (simp add: divide_inverse)
  then have "round_half_even (real_of_int k / inverse (2 ^ n)) = k * 2 ^ n"
    by (simp only: round_half_even_of_int)
  then show ?thesis
    using False by (simp add: round_double_def Let_def e_def [symmetric] ulp)
qed

lemma round_double_numeral [simp]:
  "numeral n < (2::int) ^ 53 \<Longrightarrow> round_double (numeral n) = numeral n"
  using round_double_of_int [of "numeral n"] by simp

text \<open>
  The model reproduces \<open>0.1 + 0.2 = 0.30000000000000004\<close>: the sum of the doubles
  nearest to 1/10 and 2/10 is not the double nearest to 3/10.
\<close>

lemma double_add_rounds:
  "double_add (round_double (1 / 10)) (round_double (2 / 10)) = 5404319552844596 / 2 ^ 54"
proof -
  have e1: "\<lfloor>log 2 \<bar>1 / 10 :: real\<bar>\<rfloor> = - 4"
    by (rule floor_log2_eq) (simp_all add: power_int_minus)
  have e2: "\<lfloor>log 2 \<bar>2 / 10 :: real\<bar>\<rfloor> = - 3"
    by (rule floor_log2_eq) (simp_all add: power_int_minus)
  have d1: "round_double (1 / 10) = 7205759403792794 / 2 ^ 56"
    using e1 by (simp add: round_double_def round_half_even_def Let_def power_int_minus)
  have d2: "round_double (2 / 10) = 7205759403792794 / 2 ^ 55"
    using e2 by (simp add: round_double_def round_half_even_def Let_def power_int_minus)
  have s: "(7205759403792794 / 2 ^ 56 + 7205759403792794 / 2 ^ 55 :: real) =
      21617278211378382 / 2 ^ 56"
    by simp
  have e3: "\<lfloor>log 2 \<bar>21617278211378382 / 2 ^ 56 :: real\<bar>\<rfloor> = - 2"
    by (rule floor_log2_eq) (simp_all add: power_int_minus)
  show ?thesis
    unfolding double_add_def d1 d2 s
    using e3 by (simp add: round_double_def round_half_even_def Let_def power_int_minus)
qed

lemma round_double_three_tenths: "round_double (3 / 10) = 5404319552844595 / 2 ^ 54"
proof -
  have e: "\<lfloor>log 2 \<bar>3 / 10 :: real\<bar>\<rfloor> = - 2"
    by (rule floor_log2_eq) (simp_all add: power_int_minus)
  show ?thesis
    using e by (simp add: round_double_def round_half_even_def Let_def power_int_minus)
qed

section \<open>Properties of the aggregation\<close>

lemma fold_aggregate_total:
  "totalEffort (fold aggregate_allocation allocs c) =
     fold (\<lambda>x acc. double_add acc x) (map a_percentage allocs) (totalEffort c)"
  by (induction allocs arbitrary: c) (simp_all add: aggregate_allocation_def)

lemma fold_aggregate_end_Some:
  "endDate c = Some e \<Longrightarrow>
   endDate (fold aggregate_allocation allocs c) = Some (fold max (map a_date allocs) e)"
proof (induction allocs arbitrary: c e)
  case Nil
  then show ?case by simp
next
  case (Cons a allocs)
  have "endDate (aggregate_allocation a c) = Some (max (a_date a) e)"
    using Cons.prems by (auto simp: aggregate_allocation_def max_def)
  from Cons.IH[OF this] show ?case by simp
qed

lemma fold_aggregate_end:
  assumes "endDate c = None"
  shows "endDate (fold aggregate_allocation allocs c) =
     (if allocs = [] then None else Some (Max (set (map a_date allocs))))"
proof (cases allocs)
  case Nil
  then show ?thesis using assms by simp
next
  case (Cons a rest)
  from assms have "endDate (aggregate_allocation a c) = Some (a_date a)"
    by (simp add: aggregate_allocation_def)
  from fold_aggregate_end_Some[OF this, of rest]
  have "endDate (fold aggregate_allocation allocs c) =
          Some (Max (set (a_date a # map a_date rest)))"
    unfolding Max.set_eq_fold using Cons by simp
  then show ?thesis using Cons by simp
qed

lemma fold_aggregate_start_Some:
  "startDate c = Some e \<Longrightarrow> e \<noteq> [] \<Longrightarrow> \<forall>a\<in>set allocs. a_date a \<noteq> [] \<Longrightarrow>
   startDate (fold aggregate_allocation allocs c) = Some (fold min (map a_date allocs) e)"
proof (induction allocs arbitrary: c e)
  case Nil
  then show ?case by simp
next
  case (Cons a allocs)
  have "startDate (aggregate_allocation a c) = Some (min (a_date a) e)"
    using Cons.prems by (auto simp: aggregate_allocation_def min_def)
  moreover have "min (a_date a) e \<noteq> []"
    using Cons.prems by (auto simp: min_def)
  ultimately show ?case using Cons.IH Cons.prems by simp
qed

lemma fold_aggregate_start:
  assumes "startDate c = None" and ne: "\<forall>a\<in>set allocs. a_date a \<noteq> []"
  shows "startDate (fold aggregate_allocation allocs c) =
     (if allocs = [] then None else Some (Min (set (map a_date allocs))))"
proof (cases allocs)
  case Nil
  then show ?thesis using assms by simp
next
  case (Cons a rest)
  from assms have "startDate (aggregate_allocation a c) = Some (a_date a)"
    by (simp add: aggregate_allocation_def)
  from fold_aggregate_start_Some[OF this, of rest] ne
  have "startDate (fold aggregate_allocation allocs c) =
          Some (Min (set (a_date a # map a_date rest)))"
    unfolding Min.set_eq_fold using Cons by simp
  then show ?thesis using Cons by simp
qed

lemma fold_concat:
  "fold f (concat xss) c = fold (\<lambda>xs. fold f xs) xss c"
  by (induction xss arbitrary: c) simp_all

lemma computeTaskAggregation_fold:
  "computeTaskAggregation (map (withAllocations allocs) rs) =
     fold aggregate_allocation
       (concat (map (\<lambda>r. filter (\<lambda>a. a_resource_id a = r_id r) allocs) rs))
       \<lparr> startDate = None, endDate = None, totalEffort = 0 \<rparr>"
  by (simp add: computeTaskAggregation_def fold_concat fold_map withAllocations_def comp_def Let_def)

lemma withAggregation_computed:
  "twa_computed (withAggregation rs allocs t) =
     fold aggregate_allocation (task_allocations t rs allocs)
       \<lparr> startDate = None, endDate = None, totalEffort = 0 \<rparr>"
  by (simp add: withAggregation_def Let_def computeTaskAggregation_fold task_allocations_def)

lemma dates_task_allocations:
  "a_date ` set (task_allocations t rs allocs) = task_allocation_dates t rs allocs"
  by (auto simp: task_allocations_def task_allocation_dates_def)

lemma withAggregation_specified:
  assumes "\<forall>a\<in>set allocs. a_date a \<noteq> []"
  shows "twa_computed (withAggregation rs allocs t) = specified_aggregation t rs allocs"
proof -
  let ?A = "task_allocations t rs allocs"
  let ?c0 = "\<lparr> startDate = None, endDate = None, totalEffort = 0 \<rparr>"
  have ne: "\<forall>a\<in>set ?A. a_date a \<noteq> []"
    using assms by (auto simp: task_allocations_def)
  have empty: "(task_allocation_dates t rs allocs = {}) = (?A = [])"
    unfolding dates_task_allocations[symmetric] by simp
  have s: "startDate (fold aggregate_allocation ?A ?c0) =
             (if ?A = [] then None else Some (Min (set (map a_date ?A))))"
    by (rule fold_aggregate_start) (simp_all add: ne)
  have e: "endDate (fold aggregate_allocation ?A ?c0) =
             (if ?A = [] then None else Some (Max (set (map a_date ?A))))"
    by (rule fold_aggregate_end) simp
  have t: "totalEffort (fold aggregate_allocation ?A ?c0) = task_effort t rs allocs"
    by (simp add: fold_aggregate_total task_effort_def double_sum_def)
  show ?thesis
  proof (rule computed.equality)
    show "startDate (twa_computed (withAggregation rs allocs t)) =
          startDate (specified_aggregation t rs allocs)"
      by (simp add: withAggregation_computed specified_aggregation_def Let_def s empty
            dates_task_allocations)
    show "endDate (twa_computed (withAggregation rs allocs t)) =
          endDate (specified_aggregation t rs allocs)"
      by (simp add: withAggregation_computed specified_aggregation_def Let_def e empty
            dates_task_allocations)
    show "totalEffort (twa_computed (withAggregation rs allocs t)) =
          totalEffort (specified_aggregation t rs allocs)"
      by (simp add: withAggregation_computed specified_aggregation_def Let_def t)
  qed simp
qed

lemma map_insort_key:
  "map g (insort_key (\<lambda>x. f (g x)) x xs) = insort_key f (g x) (map g xs)"
  by (induction xs) simp_all

lemma map_sort_key:
  "map g (sort_key (\<lambda>x. f (g x)) xs) = sort_key f (map g xs)"
  by (induction xs) (simp_all add: map_insort_key)

lemma computeTasksWithData_tasks:
  "map twa_task (computeTasksWithData ts rs allocs) = sort_key t_sort_order ts"
  by (simp add: computeTasksWithData_def map_sort_key comp_def withAggregation_def Let_def)

lemma computeTasksWithData_entry:
  "tw \<in> set (computeTasksWithData ts rs allocs) \<Longrightarrow>
   tw = withAggregation rs allocs (twa_task tw)"
  by (auto simp: computeTasksWithData_def withAggregation_def Let_def)

text \<open>
  What \<open>computeTasksWithData\<close> computes. For every task, the entry carries the
  earliest allocation date, the latest allocation date and the sum of the
  percentages (a sum of doubles, in loop order) over the allocations of the
  task's resources, and the entries are the tasks in stable \<open>sort_order\<close>
  order. Allocation dates are not empty: the collection requires at least one
  character.
\<close>

lemma computeTasksWithData_specified:
  assumes "[] \<notin> set (map a_date allocs)"
  shows "map twa_task (computeTasksWithData ts rs allocs) = sort_key t_sort_order ts \<and>
         (\<forall>tw\<in>set (computeTasksWithData ts rs allocs).
            twa_computed tw = specified_aggregation (twa_task tw) rs allocs)"
proof (intro conjI ballI)
  show "map twa_task (computeTasksWithData ts rs allocs) = sort_key t_sort_order ts"
    by (rule computeTasksWithData_tasks)
next
  fix tw assume "tw \<in> set (computeTasksWithData ts rs allocs)"
  then have "tw = withAggregation rs allocs (twa_task tw)"
    by (rule computeTasksWithData_entry)
  moreover have "\<forall>a\<in>set allocs. a_date a \<noteq> []"
    using assms by force
  ultimately show "twa_computed tw = specified_aggregation (twa_task tw) rs allocs"
    using withAggregation_specified by metis
qed

lemmas aggregation_defs =
  example_task_def example_resource_def example_allocation_def
  example_tasks_def example_resources_def example_allocations_def
  computeTasksWithData_def withAggregation_def withAllocations_def computeTaskAggregation_def
  aggregate_allocation_def buildAllocationMap_def double_add_def Let_def

text \<open>
  The instance named in the specification: one task whose two resources hold 30%
  on 2024-01-01 and 50% on 2024-01-03, and a task without resources.
\<close>

lemma computeTasksWithData_example:
  "map twa_computed (computeTasksWithData example_tasks example_resources example_allocations) =
     [\<lparr> startDate = Some ''2024-01-01'', endDate = Some ''2024-01-03'', totalEffort = 80 \<rparr>,
      \<lparr> startDate = None, endDate = None, totalEffort = 0 \<rparr>]"
  by (simp add: aggregation_defs)

section \<open>Facts about the array helpers and the recomputation\<close>

lemma findIndex_None_iff: "findIndex P xs = None \<longleftrightarrow> (\<forall>x\<in>set xs. \<not> P x)"
  by (induction xs) auto

lemma findIndex_Some:
  "findIndex P xs = Some i \<Longrightarrow> i < length xs \<and> P (xs ! i) \<and> (\<forall>j<i. \<not> P (xs ! j))"
proof (induction xs arbitrary: i)
  case Nil
  then show ?case by simp
next
  case (Cons x xs)
  show ?case
  proof (cases "P x")
    case True
    with Cons.prems show ?thesis by simp
  next
    case False
    with Cons.prems obtain k where k: "findIndex P xs = Some k" "i = Suc k"
      by auto
    from Cons.IH[OF k(1)] False k(2) show ?thesis
      by (auto simp: nth_Cons split: nat.splits)
  qed
qed

lemma findIndex_update_same:
  "findIndex P xs = Some i \<Longrightarrow> P y \<Longrightarrow> findIndex P (xs[i := y]) = Some i"
proof (induction xs arbitrary: i)
  case Nil
  then show ?case by simp
next
  case (Cons x xs)
  then show ?case by (cases "P x") auto
qed

lemma find_None_findIndex: "find P xs = None \<longleftrightarrow> findIndex P xs = None"
  by (induction xs) auto

lemma recompute_idem [simp]: "recompute (recompute s) = recompute s"
  by (simp add: recompute_def)

lemma recompute_fields [simp]:
  "tasks (recompute s) = tasks s" "resources (recompute s) = resources s"
  "allocations (recompute s) = allocations s" "error (recompute s) = error s"
  "project (recompute s) = project s" "subscription (recompute s) = subscription s"
  "presenceList (recompute s) = presenceList s" "sessionId (recompute s) = sessionId s"
  by (simp_all add: recompute_def)

lemma findIndex_Some_ex: "(\<exists>x\<in>set xs. P x) \<Longrightarrow> \<exists>i. findIndex P xs = Some i"
  using findIndex_None_iff[of P xs] by (cases "findIndex P xs") auto

lemma findIndex_None_image:
  "k \<notin> set (map f xs) \<Longrightarrow> findIndex (\<lambda>x. f x = k) xs = None"
  by (induction xs) auto

lemma findIndex_None_key:
  "(a, b) \<notin> set (map (\<lambda>x. (f x, g x)) xs) \<Longrightarrow>
   findIndex (\<lambda>x. f x = a \<and> g x = b) xs = None"
  by (induction xs) auto

lemma findIndex_Some_image:
  "k \<in> set (map f xs) \<Longrightarrow> \<exists>i. findIndex (\<lambda>x. f x = k) xs = Some i"
  by (induction xs) auto

section \<open>Properties of the realtime handlers\<close>

lemma handleTaskChange_idem:
  "handleTaskChange e (handleTaskChange e s) = handleTaskChange e s"
proof (cases "ev_action e")
  case Create
  show ?thesis
  proof (cases "find (\<lambda>t. t_id t = t_id (ev_record e)) (tasks s)")
    case (Some a)
    with Create show ?thesis by (simp add: handleTaskChange_def)
  next
    case None
    let ?s' = "handleTaskChange e s"
    have "ev_record e \<in> set (tasks ?s')"
      using Create None
      by (auto simp: handleTaskChange_def Let_def set_update_memI
          dest: findIndex_Some split: option.splits)
    then have "find (\<lambda>t. t_id t = t_id (ev_record e)) (tasks ?s') \<noteq> None"
      by (auto simp: find_None_iff)
    then show ?thesis using Create
      by (auto simp: handleTaskChange_def[of e ?s'] Let_def)
  qed
next
  case Update
  show ?thesis
  proof (cases "findIndex (\<lambda>t. t_id t = t_id (ev_record e)) (tasks s)")
    case None
    with Update show ?thesis by (simp add: handleTaskChange_def Let_def)
  next
    case (Some i)
    with Update show ?thesis
      by (simp add: handleTaskChange_def Let_def findIndex_update_same recompute_def)
  qed
next
  case Delete
  then show ?thesis
    by (simp add: handleTaskChange_def Let_def recompute_def)
qed


lemma handleResourceChange_idem:
  "handleResourceChange e (handleResourceChange e s) = handleResourceChange e s"
proof (cases "ev_action e")
  case Create
  show ?thesis
  proof (cases "find (\<lambda>r. r_id r = r_id (ev_record e)) (resources s)")
    case (Some a)
    with Create show ?thesis by (simp add: handleResourceChange_def)
  next
    case None
    let ?s' = "handleResourceChange e s"
    have "ev_record e \<in> set (resources ?s')"
      using Create None
      by (auto simp: handleResourceChange_def Let_def set_update_memI
          dest: findIndex_Some split: option.splits)
    then have "find (\<lambda>r. r_id r = r_id (ev_record e)) (resources ?s') \<noteq> None"
      by (auto simp: find_None_iff)
    then show ?thesis using Create
      by (auto simp: handleResourceChange_def[of e ?s'] Let_def)
  qed
next
  case Update
  show ?thesis
  proof (cases "findIndex (\<lambda>r. r_id r = r_id (ev_record e)) (resources s)")
    case None
    with Update show ?thesis by (simp add: handleResourceChange_def Let_def)
  next
    case (Some i)
    with Update show ?thesis
      by (simp add: handleResourceChange_def Let_def findIndex_update_same recompute_def)
  qed
next
  case Delete
  then show ?thesis
    by (simp add: handleResourceChange_def Let_def recompute_def)
qed

text \<open>
  C6. Handling the same realtime event twice leaves the store exactly as
  handling it once does: a repeated \<open>create\<close> or \<open>update\<close> event (and a
  repeated \<open>delete\<close> event as well) for a task or a resource changes nothing
  the second time.
\<close>

theorem realtime_upsert_idempotent:
  "handleTaskChange te (handleTaskChange te s) = handleTaskChange te s \<and>
   handleResourceChange re (handleResourceChange re s) = handleResourceChange re s"
  by (simp add: handleTaskChange_idem handleResourceChange_idem)

lemma handleTaskChange_update_frame:
  "handleTaskChange (update_event t) s =
     recompute (s\<lparr> tasks := tasks (handleTaskChange (update_event t) s) \<rparr>)"
  by (simp add: handleTaskChange_def update_event_def recompute_def split: option.splits)

lemma handleResourceChange_update_frame:
  "handleResourceChange (update_event r) s =
     recompute (s\<lparr> resources := resources (handleResourceChange (update_event r) s) \<rparr>)"
  by (simp add: handleResourceChange_def update_event_def recompute_def split: option.splits)

lemma handleAllocationChange_update_frame:
  "handleAllocationChange (update_event a) s =
     recompute (s\<lparr> allocations := allocations (handleAllocationChange (update_event a) s) \<rparr>)"
  by (simp add: handleAllocationChange_def update_event_def recompute_def Let_def
        split: option.splits)

lemma findIndex_Some_key:
  "(f y, g y) \<in> set (map (\<lambda>x. (f x, g x)) xs) \<Longrightarrow>
   \<exists>i. findIndex (\<lambda>x. f x = f y \<and> g x = g y) xs = Some i"
  by (rule findIndex_Some_ex) auto

text \<open>
  C7 (as amended). An \<open>update\<close> event overwrites the first stored record that has
  the event's identifier with the event's record, leaves every other position
  of that collection as it is, leaves the other collections and every other
  field of the store untouched and recomputes the derived data. When no stored
  record has that identifier the record is not inserted: the tasks and the
  resources stay as they are; among the allocations the first one with the
  record's resource and date is overwritten with the record, and when there is
  none the allocations stay as they are.
\<close>

theorem update_event_replaces_known_record_only:
  "(t_id t \<notin> set (map t_id (tasks s)) \<longrightarrow>
      tasks (handleTaskChange (update_event t) s) = tasks s) \<and>
   (t_id t \<in> set (map t_id (tasks s)) \<longrightarrow>
      (\<exists>i<length (tasks s). t_id (tasks s ! i) = t_id t \<and>
         (\<forall>j<i. t_id (tasks s ! j) \<noteq> t_id t) \<and>
         tasks (handleTaskChange (update_event t) s) = (tasks s)[i := t])) \<and>
   handleTaskChange (update_event t) s =
     recompute (s\<lparr> tasks := tasks (handleTaskChange (update_event t) s) \<rparr>) \<and>
   (r_id r \<notin> set (map r_id (resources s)) \<longrightarrow>
      resources (handleResourceChange (update_event r) s) = resources s) \<and>
   (r_id r \<in> set (map r_id (resources s)) \<longrightarrow>
      (\<exists>i<length (resources s). r_id (resources s ! i) = r_id r \<and>
         (\<forall>j<i. r_id (resources s ! j) \<noteq> r_id r) \<and>
         resources (handleResourceChange (update_event r) s) = (resources s)[i := r])) \<and>
   handleResourceChange (update_event r) s =
     recompute (s\<lparr> resources := resources (handleResourceChange (update_event r) s) \<rparr>) \<and>
   (a_id a \<notin> set (map a_id (allocations s)) \<and>
    (a_resource_id a, a_date a) \<notin> set (map (\<lambda>x. (a_resource_id x, a_date x)) (allocations s)) \<longrightarrow>
      allocations (handleAllocationChange (update_event a) s) = allocations s) \<and>
   (a_id a \<in> set (map a_id (allocations s)) \<longrightarrow>
      (\<exists>i<length (allocations s). a_id (allocations s ! i) = a_id a \<and>
         (\<forall>j<i. a_id (allocations s ! j) \<noteq> a_id a) \<and>
         allocations (handleAllocationChange (update_event a) s) = (allocations s)[i := a])) \<and>
   (a_id a \<notin> set (map a_id (allocations s)) \<and>
    (a_resource_id a, a_date a) \<in> set (map (\<lambda>x. (a_resource_id x, a_date x)) (allocations s)) \<longrightarrow>
      (\<exists>i<length (allocations s).
         (a_resource_id (allocations s ! i), a_date (allocations s ! i)) =
           (a_resource_id a, a_date a) \<and>
         (\<forall>j<i. (a_resource_id (allocations s ! j), a_date (allocations s ! j)) \<noteq>
                  (a_resource_id a, a_date a)) \<and>
         allocations (handleAllocationChange (update_event a) s) = (allocations s)[i := a])) \<and>
   handleAllocationChange (update_event a) s =
     recompute (s\<lparr> allocations := allocations (handleAllocationChange (update_event a) s) \<rparr>)"
proof (intro conjI impI)
  assume "t_id t \<notin> set (map t_id (tasks s))"
  then have "findIndex (\<lambda>x. t_id x = t_id t) (tasks s) = None"
    by (rule findIndex_None_image)
  then show "tasks (handleTaskChange (update_event t) s) = tasks s"
    by (simp add: handleTaskChange_def update_event_def)
next
  assume "t_id t \<in> set (map t_id (tasks s))"
  then obtain i where i: "findIndex (\<lambda>x. t_id x = t_id t) (tasks s) = Some i"
    using findIndex_Some_image by fast
  from findIndex_Some[OF i] i
  show "\<exists>i<length (tasks s). t_id (tasks s ! i) = t_id t \<and>
         (\<forall>j<i. t_id (tasks s ! j) \<noteq> t_id t) \<and>
         tasks (handleTaskChange (update_event t) s) = (tasks s)[i := t]"
    by (intro exI[of _ i]) (simp add: handleTaskChange_def update_event_def)
next
  show "handleTaskChange (update_event t) s =
     recompute (s\<lparr> tasks := tasks (handleTaskChange (update_event t) s) \<rparr>)"
    by (rule handleTaskChange_update_frame)
next
  assume "r_id r \<notin> set (map r_id (resources s))"
  then have "findIndex (\<lambda>x. r_id x = r_id r) (resources s) = None"
    by (rule findIndex_None_image)
  then show "resources (handleResourceChange (update_event r) s) = resources s"
    by (simp add: handleResourceChange_def update_event_def)
next
  assume "r_id r \<in> set (map r_id (resources s))"
  then obtain i where i: "findIndex (\<lambda>x. r_id x = r_id r) (resources s) = Some i"
    using findIndex_Some_image by fast
  from findIndex_Some[OF i] i
  show "\<exists>i<length (resources s). r_id (resources s ! i) = r_id r \<and>
         (\<forall>j<i. r_id (resources s ! j) \<noteq> r_id r) \<and>
         resources (handleResourceChange (update_event r) s) = (resources s)[i := r]"
    by (intro exI[of _ i]) (simp add: handleResourceChange_def update_event_def)
next
  show "handleResourceChange (update_event r) s =
     recompute (s\<lparr> resources := resources (handleResourceChange (update_event r) s) \<rparr>)"
    by (rule handleResourceChange_update_frame)
next
  assume "a_id a \<notin> set (map a_id (allocations s)) \<and>
    (a_resource_id a, a_date a) \<notin> set (map (\<lambda>x. (a_resource_id x, a_date x)) (allocations s))"
  then have "findIndex (\<lambda>x. a_id x = a_id a) (allocations s) = None"
    and "findIndex (\<lambda>x. a_resource_id x = a_resource_id a \<and> a_date x = a_date a)
           (allocations s) = None"
    by (simp_all add: findIndex_None_image findIndex_None_key)
  then show "allocations (handleAllocationChange (update_event a) s) = allocations s"
    by (simp add: handleAllocationChange_def update_event_def)
next
  assume "a_id a \<in> set (map a_id (allocations s))"
  then obtain i where i: "findIndex (\<lambda>x. a_id x = a_id a) (allocations s) = Some i"
    using findIndex_Some_image by fast
  from findIndex_Some[OF i] i
  show "\<exists>i<length (allocations s). a_id (allocations s ! i) = a_id a \<and>
         (\<forall>j<i. a_id (allocations s ! j) \<noteq> a_id a) \<and>
         allocations (handleAllocationChange (update_event a) s) = (allocations s)[i := a]"
    by (intro exI[of _ i]) (simp add: handleAllocationChange_def update_event_def)
next
  assume asm: "a_id a \<notin> set (map a_id (allocations s)) \<and>
    (a_resource_id a, a_date a) \<in> set (map (\<lambda>x. (a_resource_id x, a_date x)) (allocations s))"
  then have none: "findIndex (\<lambda>x. a_id x = a_id a) (allocations s) = None"
    by (simp add: findIndex_None_image)
  from asm obtain i where
    i: "findIndex (\<lambda>x. a_resource_id x = a_resource_id a \<and> a_date x = a_date a)
          (allocations s) = Some i"
    using findIndex_Some_key [of a_resource_id a a_date "allocations s"] by blast
  from findIndex_Some[OF i] i none
  show "\<exists>i<length (allocations s).
         (a_resource_id (allocations s ! i), a_date (allocations s ! i)) =
           (a_resource_id a, a_date a) \<and>
         (\<forall>j<i. (a_resource_id (allocations s ! j), a_date (allocations s ! j)) \<noteq>
                  (a_resource_id a, a_date a)) \<and>
         allocations (handleAllocationChange (update_event a) s) = (allocations s)[i := a]"
    by (intro exI[of _ i]) (simp add: handleAllocationChange_def update_event_def)
next
  show "handleAllocationChange (update_event a) s =
     recompute (s\<lparr> allocations := allocations (handleAllocationChange (update_event a) s) \<rparr>)"
    by (rule handleAllocationChange_update_frame)
qed



lemmas store_defs = example_store_def initialState_def recompute_def update_event_def
  example_tasks_def example_resources_def example_allocations_def
  example_task_def example_resource_def example_allocation_def

theorem update_event_replaces_known_record_only_witness:
  "t_id (example_task ''t1'' ''Redesign'' 1) \<in> set (map t_id (tasks example_store)) \<and>
   tasks (handleTaskChange (update_event (example_task ''t1'' ''Redesign'' 1)) example_store) =
     [example_task ''t1'' ''Redesign'' 1, example_task ''t2'' ''Build'' 2] \<and>
   resources (handleTaskChange (update_event (example_task ''t1'' ''Redesign'' 1)) example_store) =
     resources example_store \<and>
   allocations (handleTaskChange (update_event (example_task ''t1'' ''Redesign'' 1)) example_store) =
     allocations example_store \<and>
   r_id (example_resource ''r9'' ''t1'' ''Carol'') \<notin> set (map r_id (resources example_store)) \<and>
   resources (handleResourceChange (update_event (example_resource ''r9'' ''t1'' ''Carol''))
                example_store) = resources example_store \<and>
   a_id (example_allocation ''a1'' ''r1'' ''2024-01-01'' 60) \<in>
     set (map a_id (allocations example_store)) \<and>
   allocations (handleAllocationChange
                  (update_event (example_allocation ''a1'' ''r1'' ''2024-01-01'' 60))
                  example_store) =
     [example_allocation ''a1'' ''r1'' ''2024-01-01'' 60,
      example_allocation ''a2'' ''r2'' ''2024-01-03'' 50] \<and>
   a_id (example_allocation ''a9'' ''r2'' ''2024-01-03'' 10) \<notin>
     set (map a_id (allocations example_store)) \<and>
   (''r2'', ''2024-01-03'') \<in>
     set (map (\<lambda>x. (a_resource_id x, a_date x)) (allocations example_store)) \<and>
   allocations (handleAllocationChange
                  (update_event (example_allocation ''a9'' ''r2'' ''2024-01-03'' 10))
                  example_store) =
     [example_allocation ''a1'' ''r1'' ''2024-01-01'' 30,
      example_allocation ''a9'' ''r2'' ''2024-01-03'' 10]"
proof -
  let ?t = "example_task ''t1'' ''Redesign'' 1"
  let ?r = "example_resource ''r9'' ''t1'' ''Carol''"
  let ?a = "example_allocation ''a1'' ''r1'' ''2024-01-01'' 60"
  let ?b = "example_allocation ''a9'' ''r2'' ''2024-01-03'' 10"
  note known = update_event_replaces_known_record_only [of ?t example_store ?r ?a]
  note keyed = update_event_replaces_known_record_only [of ?t example_store ?r ?b]
  have t: "t_id ?t \<in> set (map t_id (tasks example_store))"
    by (simp add: store_defs)
  have r: "r_id ?r \<notin> set (map r_id (resources example_store))"
    by (simp add: store_defs)
  have a: "a_id ?a \<in> set (map a_id (allocations example_store))"
    by (simp add: store_defs)
  have b: "a_id ?b \<notin> set (map a_id (allocations example_store))"
    by (simp add: store_defs)
  have bk: "(''r2'', ''2024-01-03'') \<in>
      set (map (\<lambda>x. (a_resource_id x, a_date x)) (allocations example_store))"
    by (simp add: store_defs)
  then have bk': "(a_resource_id ?b, a_date ?b) \<in>
      set (map (\<lambda>x. (a_resource_id x, a_date x)) (allocations example_store))"
    by (simp add: example_allocation_def)
  from known t obtain i where
    "i < length (tasks example_store)" "t_id (tasks example_store ! i) = t_id ?t"
    "\<forall>j<i. t_id (tasks example_store ! j) \<noteq> t_id ?t"
    "tasks (handleTaskChange (update_event ?t) example_store) = (tasks example_store)[i := ?t]"
    by blast
  moreover from this have "i = 0"
    by (cases i) (auto simp: store_defs)
  ultimately have t': "tasks (handleTaskChange (update_event ?t) example_store) =
      [example_task ''t1'' ''Redesign'' 1, example_task ''t2'' ''Build'' 2]"
    by (simp add: store_defs)
  from known have frame: "handleTaskChange (update_event ?t) example_store =
      recompute (example_store\<lparr> tasks := tasks (handleTaskChange (update_event ?t) example_store) \<rparr>)"
    by blast
  have tr: "resources (handleTaskChange (update_event ?t) example_store) = resources example_store"
    by (subst frame) simp
  have ta: "allocations (handleTaskChange (update_event ?t) example_store) =
      allocations example_store"
    by (subst frame) simp
  from known r have r': "resources (handleResourceChange (update_event ?r) example_store) =
      resources example_store"
    by blast
  from known a obtain k where
    "k < length (allocations example_store)" "a_id (allocations example_store ! k) = a_id ?a"
    "\<forall>j<k. a_id (allocations example_store ! j) \<noteq> a_id ?a"
    "allocations (handleAllocationChange (update_event ?a) example_store) =
       (allocations example_store)[k := ?a]"
    by blast
  moreover from this have "k = 0"
    by (cases k) (auto simp: store_defs)
  ultimately have a': "allocations (handleAllocationChange (update_event ?a) example_store) =
      [example_allocation ''a1'' ''r1'' ''2024-01-01'' 60,
       example_allocation ''a2'' ''r2'' ''2024-01-03'' 50]"
    by (simp add: store_defs)
  from keyed b bk' obtain m where
    m: "m < length (allocations example_store)"
    "(a_resource_id (allocations example_store ! m), a_date (allocations example_store ! m)) =
       (a_resource_id ?b, a_date ?b)"
    "allocations (handleAllocationChange (update_event ?b) example_store) =
       (allocations example_store)[m := ?b]"
    by blast
  have "m = 1"
  proof (cases m)
    case 0
    with m(2) show ?thesis by (simp add: store_defs)
  next
    case (Suc n)
    with m(1) show ?thesis by (simp add: store_defs)
  qed
  with m(3) have b': "allocations (handleAllocationChange (update_event ?b) example_store) =
      [example_allocation ''a1'' ''r1'' ''2024-01-01'' 30,
       example_allocation ''a9'' ''r2'' ''2024-01-03'' 10]"
    by (simp add: store_defs)
  show ?thesis using t t' tr ta r r' a a' b bk b' by simp
qed

text \<open>
  An \<open>update\<close> event for a record the store does not hold: the record is in
  none of the three collections afterwards.
\<close>

theorem update_event_not_inserted_counterexample:
  "example_task ''t9'' ''Review'' 3 \<notin>
     set (tasks (handleTaskChange (update_event (example_task ''t9'' ''Review'' 3)) example_store)) \<and>
   example_resource ''r9'' ''t1'' ''Carol'' \<notin>
     set (resources (handleResourceChange
                       (update_event (example_resource ''r9'' ''t1'' ''Carol'')) example_store)) \<and>
   example_allocation ''a9'' ''r1'' ''2024-02-01'' 10 \<notin>
     set (allocations (handleAllocationChange
                         (update_event (example_allocation ''a9'' ''r1'' ''2024-02-01'' 10))
                         example_store))"
  by (simp add: store_defs handleTaskChange_def handleResourceChange_def
        handleAllocationChange_def)

section \<open>Properties of the presence list\<close>

text \<open>
  C9 (as amended). The heartbeat callback, when a project is loaded, keeps exactly
  the presence records seen less than 30000 ms ago; \<open>getOtherUsers\<close> returns the
  records of the presence list of other sessions, whatever their age; and a
  \<open>create\<close> or \<open>update\<close> presence event keeps every record of the sessions it is
  not about, stale or not.
\<close>

theorem stale_presence_dropped_by_heartbeat_only:
  "(project s \<noteq> None \<longrightarrow>
      presenceList (heartbeat now s) =
        filter (\<lambda>p. now - p_last_seen p < 30000) (presenceList s)) \<and>
   (project s = None \<longrightarrow> presenceList (heartbeat now s) = presenceList s) \<and>
   set (getOtherUsers s) = {p \<in> set (presenceList s). p_session_id p \<noteq> sessionId s} \<and>
   (ev_action e \<noteq> Delete \<longrightarrow>
      (\<forall>p\<in>set (presenceList s). p_session_id p \<noteq> p_session_id (ev_record e) \<longrightarrow>
         p \<in> set (presenceList (handlePresenceChange e s))))"
proof (intro conjI impI ballI)
  assume "project s \<noteq> None"
  then show "presenceList (heartbeat now s) =
      filter (\<lambda>p. now - p_last_seen p < 30000) (presenceList s)"
    by (auto simp: heartbeat_def Let_def intro!: filter_cong)
next
  assume "project s = None"
  then show "presenceList (heartbeat now s) = presenceList s"
    by (simp add: heartbeat_def)
next
  show "set (getOtherUsers s) = {p \<in> set (presenceList s). p_session_id p \<noteq> sessionId s}"
    by (auto simp: getOtherUsers_def)
next
  fix p
  assume act: "ev_action e \<noteq> Delete" and p: "p \<in> set (presenceList s)"
    and other: "p_session_id p \<noteq> p_session_id (ev_record e)"
  show "p \<in> set (presenceList (handlePresenceChange e s))"
  proof (cases "ev_action e")
    case Create
    with p show ?thesis
      by (auto simp: handlePresenceChange_def Let_def split: option.splits)
  next
    case Update
    show ?thesis
    proof (cases "findIndex (\<lambda>q. p_session_id q = p_session_id (ev_record e)) (presenceList s)")
      case None
      with Update p show ?thesis
        by (auto simp: handlePresenceChange_def Let_def)
    next
      case (Some i)
      from findIndex_Some[OF Some] other p
      have "p \<in> set ((presenceList s)[i := ev_record e])"
        by (metis in_set_conv_nth length_list_update nth_list_update_neq)
      with Update Some p show ?thesis
        by (simp add: handlePresenceChange_def Let_def)
    qed
  next
    case Delete
    with act show ?thesis by simp
  qed
qed

lemmas presence_defs = presence_store_def initialState_def example_presence_def
  example_project_def heartbeat_def getOtherUsers_def handlePresenceChange_def update_event_def

theorem stale_presence_dropped_by_heartbeat_only_witness:
  "project presence_store \<noteq> None \<and>
   presenceList (heartbeat 31000 presence_store) =
     filter (\<lambda>p. 31000 - p_last_seen p < 30000) (presenceList presence_store) \<and>
   presenceList (heartbeat 31000 presence_store) = [] \<and>
   ev_action (update_event (example_presence ''x2'' ''carol'' 30900)) \<noteq> Delete \<and>
   example_presence ''x1'' ''bob'' 0 \<in>
     set (presenceList (handlePresenceChange
            (update_event (example_presence ''x2'' ''carol'' 30900)) presence_store))"
proof -
  let ?e = "update_event (example_presence ''x2'' ''carol'' 30900)"
  note only = stale_presence_dropped_by_heartbeat_only [of presence_store 31000 ?e]
  have loaded: "project presence_store \<noteq> None"
    by (simp add: presence_defs)
  have act: "ev_action ?e \<noteq> Delete"
    by (simp add: update_event_def)
  have bob: "example_presence ''x1'' ''bob'' 0 \<in> set (presenceList presence_store)"
    "p_session_id (example_presence ''x1'' ''bob'' 0) \<noteq> p_session_id (ev_record ?e)"
    by (simp_all add: presence_defs)
  from only loaded have tick: "presenceList (heartbeat 31000 presence_store) =
      filter (\<lambda>p. 31000 - p_last_seen p < 30000) (presenceList presence_store)"
    by blast
  then have gone: "presenceList (heartbeat 31000 presence_store) = []"
    by (simp add: presence_store_def example_presence_def)
  from only act bob have kept: "example_presence ''x1'' ''bob'' 0 \<in>
      set (presenceList (handlePresenceChange ?e presence_store))"
    by blast
  show ?thesis using loaded tick gone act kept by simp
qed

text \<open>
  A record last seen at time 0 survives the heartbeat at 25000 ms and a presence
  event for another session; \<open>getOtherUsers\<close> returns it at 31000 ms, 31
  seconds after it was last seen.
\<close>

theorem stale_presence_returned_counterexample:
  "getOtherUsers
     (handlePresenceChange (update_event (example_presence ''x2'' ''carol'' 30900))
        (heartbeat 25000 presence_store)) =
     [example_presence ''x1'' ''bob'' 0, example_presence ''x2'' ''carol'' 30900] \<and>
   31000 - p_last_seen (example_presence ''x1'' ''bob'' 0) = 31000"
  by (simp add: presence_defs)

section \<open>Properties of painting\<close>

lemma findIndex_append_new:
  "findIndex P xs = None \<Longrightarrow> P y \<Longrightarrow> findIndex P (xs @ [y]) = Some (length xs)"
  by (induction xs) (auto split: if_splits)

lemma setAllocation_occupies_key:
  "\<exists>i<length (allocations (setAllocation R D p c x cr up s)).
     findIndex (\<lambda>a. a_resource_id a = R \<and> a_date a = D)
       (allocations (setAllocation R D p c x cr up s)) = Some i \<and>
     a_percentage (allocations (setAllocation R D p c x cr up s) ! i) = p \<and>
     a_color_hex (allocations (setAllocation R D p c x cr up s) ! i) = c"
proof (cases "findIndex (\<lambda>a. a_resource_id a = R \<and> a_date a = D) (allocations s)")
  case None
  then show ?thesis
    by (simp add: setAllocation_def findIndex_append_new)
next
  case (Some i)
  from findIndex_Some[OF Some] have i: "i < length (allocations s)"
    "a_resource_id (allocations s ! i) = R" "a_date (allocations s ! i) = D"
    by simp_all
  with Some show ?thesis
    by (simp add: setAllocation_def findIndex_update_same)
qed

text \<open>
  C10. A cell is painted and repainted while the first \<open>upsertAllocation\<close> is in
  flight. When the first call resolves, its confirmed record replaces the
  allocation at the cell, which held the repaint's percentage and colour; when
  the repaint's own call resolves, its record replaces that one in turn.
\<close>

theorem late_confirmation_overwrites_repaint:
  assumes "a_resource_id saved1 = R" and "a_date saved1 = D"
  shows "let painted = setAllocation R D p2 c2 x2 cr2 up2 (setAllocation R D p1 c1 x1 cr1 up1 s)
         in \<exists>i<length (allocations painted).
              findIndex (\<lambda>a. a_resource_id a = R \<and> a_date a = D) (allocations painted) = Some i \<and>
              a_percentage (allocations painted ! i) = p2 \<and>
              a_color_hex (allocations painted ! i) = c2 \<and>
              allocations (setAllocationAsync_resolved R D saved1 painted) =
                (allocations painted)[i := saved1] \<and>
              allocations (setAllocationAsync_resolved R D saved2
                             (setAllocationAsync_resolved R D saved1 painted)) =
                (allocations painted)[i := saved2]"
proof -
  let ?s1 = "setAllocation R D p1 c1 x1 cr1 up1 s"
  let ?s2 = "setAllocation R D p2 c2 x2 cr2 up2 ?s1"
  let ?key = "\<lambda>a. a_resource_id a = R \<and> a_date a = D"
  from setAllocation_occupies_key[of R D p2 c2 x2 cr2 up2 ?s1]
  obtain i where i: "i < length (allocations ?s2)"
    "findIndex ?key (allocations ?s2) = Some i"
    "a_percentage (allocations ?s2 ! i) = p2" "a_color_hex (allocations ?s2 ! i) = c2"
    by blast
  have first: "allocations (setAllocationAsync_resolved R D saved1 ?s2) =
      (allocations ?s2)[i := saved1]"
    using i(2) by (simp add: setAllocationAsync_resolved_def)
  have "findIndex ?key ((allocations ?s2)[i := saved1]) = Some i"
    using i(2) assms by (simp add: findIndex_update_same)
  then have second: "allocations (setAllocationAsync_resolved R D saved2
      (setAllocationAsync_resolved R D saved1 ?s2)) = (allocations ?s2)[i := saved2]"
    using first by (simp add: setAllocationAsync_resolved_def[of R D saved2])
  show ?thesis
    unfolding Let_def using i first second by blast
qed

theorem late_confirmation_overwrites_repaint_witness:
  "a_resource_id (example_allocation ''a1'' ''r1'' ''2024-01-01'' 30) = ''r1'' \<and>
   a_date (example_allocation ''a1'' ''r1'' ''2024-01-01'' 30) = ''2024-01-01'' \<and>
   map a_percentage (allocations painted_store) = [50] \<and>
   allocations (setAllocationAsync_resolved ''r1'' ''2024-01-01''
                  (example_allocation ''a1'' ''r1'' ''2024-01-01'' 30) painted_store) =
     [example_allocation ''a1'' ''r1'' ''2024-01-01'' 30]"
proof -
  let ?saved = "example_allocation ''a1'' ''r1'' ''2024-01-01'' 30"
  have key: "a_resource_id ?saved = ''r1''" "a_date ?saved = ''2024-01-01''"
    by (simp_all add: example_allocation_def)
  have one: "length (allocations painted_store) = 1"
    "map a_percentage (allocations painted_store) = [50]"
    by (simp_all add: painted_store_def setAllocation_def initialState_def)
  from late_confirmation_overwrites_repaint
         [OF key, of 50 "''#3182BD''" "''2_b''" "''c2''" "''u2''"
            30 "''#30A14E''" "''1_a''" "''c1''" "''u1''" initialState ?saved]
  obtain i where "i < length (allocations painted_store)"
    "allocations (setAllocationAsync_resolved ''r1'' ''2024-01-01'' ?saved painted_store) =
       (allocations painted_store)[i := ?saved]"
    unfolding Let_def painted_store_def by blast
  with one have "allocations (setAllocationAsync_resolved ''r1'' ''2024-01-01'' ?saved
      painted_store) = [?saved]"
    by (cases "allocations painted_store") auto
  with key one show ?thesis by simp
qed


section \<open>Properties of task deletion\<close>

lemma deleted_resource_ids:
  "x \<in> set (map r_id (filter (\<lambda>r. r_task_id r = T) rs)) \<longleftrightarrow>
   (\<exists>r\<in>set rs. r_task_id r = T \<and> r_id r = x)"
  by (induction rs) auto

lemma deleteTask_allocations:
  "allocations (deleteTask T s) =
     filter (\<lambda>a. \<not> (\<exists>r\<in>set (resources s). r_task_id r = T \<and> r_id r = a_resource_id a))
       (allocations s)"
  by (simp add: deleteTask_def Let_def deleted_resource_ids del: set_map set_filter)

lemma deleteTask_no_orphans:
  assumes "no_orphans s"
  shows "no_orphans (deleteTask T s)"
  unfolding no_orphans_def
proof (intro conjI ballI)
  fix r assume "r \<in> set (resources (deleteTask T s))"
  then have r: "r \<in> set (resources s)" "r_task_id r \<noteq> T"
    by (simp_all add: deleteTask_def Let_def)
  with assms obtain t where "t \<in> set (tasks s)" "t_id t = r_task_id r"
    by (auto simp: no_orphans_def)
  with r(2) show "r_task_id r \<in> set (map t_id (tasks (deleteTask T s)))"
    by (force simp: deleteTask_def Let_def)
next
  fix a assume "a \<in> set (allocations (deleteTask T s))"
  then have a: "a \<in> set (allocations s)"
    "\<not> (\<exists>r\<in>set (resources s). r_task_id r = T \<and> r_id r = a_resource_id a)"
    by (simp_all add: deleteTask_allocations)
  with assms obtain r where r: "r \<in> set (resources s)" "r_id r = a_resource_id a"
    by (auto simp: no_orphans_def)
  with a(2) have "r_task_id r \<noteq> T" by blast
  with r show "a_resource_id a \<in> set (map r_id (resources (deleteTask T s)))"
    by (force simp: deleteTask_def Let_def)
qed

text \<open>
  C3. \<open>deleteTask\<close>, and \<open>handleTaskChange\<close> on a \<open>delete\<close> event, which is the
  same state update, remove in one step the tasks with the identifier, every
  resource of that task and every allocation of one of those resources, and
  nothing else; the derived data is recomputed in the same step, and a store
  without orphaned children has none afterwards.
\<close>

theorem task_deletion_cascades:
  "handleTaskChange (delete_event t) s = deleteTask (t_id t) s \<and>
   tasks (deleteTask T s) = filter (\<lambda>t. t_id t \<noteq> T) (tasks s) \<and>
   resources (deleteTask T s) = filter (\<lambda>r. r_task_id r \<noteq> T) (resources s) \<and>
   allocations (deleteTask T s) =
     filter (\<lambda>a. \<not> (\<exists>r\<in>set (resources s). r_task_id r = T \<and> r_id r = a_resource_id a))
       (allocations s) \<and>
   tasksWithData (deleteTask T s) =
     computeTasksWithData (tasks (deleteTask T s)) (resources (deleteTask T s))
       (allocations (deleteTask T s)) \<and>
   (no_orphans s \<longrightarrow> no_orphans (deleteTask T s))"
proof (intro conjI impI)
  show "handleTaskChange (delete_event t) s = deleteTask (t_id t) s"
    by (simp add: handleTaskChange_def deleteTask_def delete_event_def Let_def)
  show "allocations (deleteTask T s) =
     filter (\<lambda>a. \<not> (\<exists>r\<in>set (resources s). r_task_id r = T \<and> r_id r = a_resource_id a))
       (allocations s)"
    by (rule deleteTask_allocations)
  show "tasksWithData (deleteTask T s) =
     computeTasksWithData (tasks (deleteTask T s)) (resources (deleteTask T s))
       (allocations (deleteTask T s))"
    by (simp add: deleteTask_def Let_def recompute_def)
  show "tasks (deleteTask T s) = filter (\<lambda>t. t_id t \<noteq> T) (tasks s)"
    by (simp add: deleteTask_def Let_def)
  show "resources (deleteTask T s) = filter (\<lambda>r. r_task_id r \<noteq> T) (resources s)"
    by (simp add: deleteTask_def Let_def)
  assume "no_orphans s"
  then show "no_orphans (deleteTask T s)"
    by (rule deleteTask_no_orphans)
qed

theorem task_deletion_cascades_witness:
  "no_orphans example_store \<and>
   no_orphans (deleteTask ''t1'' example_store) \<and>
   tasks (deleteTask ''t1'' example_store) = [example_task ''t2'' ''Build'' 2] \<and>
   resources (deleteTask ''t1'' example_store) = [] \<and>
   allocations (deleteTask ''t1'' example_store) = [] \<and>
   handleTaskChange (delete_event (example_task ''t1'' ''Design'' 1)) example_store =
     deleteTask ''t1'' example_store"
proof -
  note cascade = task_deletion_cascades
    [of "example_task ''t1'' ''Design'' 1" example_store "''t1''"]
  have before: "no_orphans example_store"
    by (simp add: no_orphans_def store_defs)
  with cascade have after: "no_orphans (deleteTask ''t1'' example_store)"
    by blast
  from cascade have "tasks (deleteTask ''t1'' example_store) =
      filter (\<lambda>t. t_id t \<noteq> ''t1'') (tasks example_store)"
    and "resources (deleteTask ''t1'' example_store) =
      filter (\<lambda>r. r_task_id r \<noteq> ''t1'') (resources example_store)"
    and "allocations (deleteTask ''t1'' example_store) =
      filter (\<lambda>a. \<not> (\<exists>r\<in>set (resources example_store).
          r_task_id r = ''t1'' \<and> r_id r = a_resource_id a)) (allocations example_store)"
    and same: "handleTaskChange (delete_event (example_task ''t1'' ''Design'' 1)) example_store =
      deleteTask (t_id (example_task ''t1'' ''Design'' 1)) example_store"
    by blast+
  then have "tasks (deleteTask ''t1'' example_store) = [example_task ''t2'' ''Build'' 2]"
    "resources (deleteTask ''t1'' example_store) = []"
    "allocations (deleteTask ''t1'' example_store) = []"
    by (simp_all add: store_defs)
  moreover have "t_id (example_task ''t1'' ''Design'' 1) = ''t1''"
    by (simp add: example_task_def)
  ultimately show ?thesis using before after same by simp
qed

section \<open>Properties of the optimistic update\<close>

lemma find_findIndex:
  "findIndex P xs = Some i \<Longrightarrow> find P xs = Some (xs ! i)"
proof (induction xs arbitrary: i)
  case Nil
  then show ?case by simp
next
  case (Cons x xs)
  then show ?case by (cases "P x") auto
qed















lemma edit_restorable_task:
  "tu_id u = None \<Longrightarrow> tu_collectionId u = None \<Longrightarrow> tu_collectionName u = None \<Longrightarrow>
   tu_created u = None \<Longrightarrow> tu_updated u = None \<Longrightarrow> restorable_task t u"
  by (simp add: restorable_task_def)

lemma edit_restorable_resource:
  "ru_id u = None \<Longrightarrow> ru_collectionId u = None \<Longrightarrow> ru_collectionName u = None \<Longrightarrow>
   ru_created u = None \<Longrightarrow> ru_updated u = None \<Longrightarrow> restorable_resource r u"
  by (simp add: restorable_resource_def)




section \<open>Properties of the optimistic create\<close>

lemma findIndex_append_Some:
  "findIndex P xs = Some i \<Longrightarrow> findIndex P (xs @ ys) = Some i"
  by (induction xs arbitrary: i) (auto split: if_splits)

lemma count_list_update_fresh:
  "x \<notin> set xs \<Longrightarrow> i < length xs \<Longrightarrow> count_list (xs[i := x]) x = 1"
proof (induction xs arbitrary: i)
  case Nil
  then show ?case by simp
next
  case (Cons y ys)
  then show ?case by (cases i) (auto simp: count_list_0_iff)
qed

lemma not_in_update: "x \<notin> set xs \<Longrightarrow> x \<noteq> y \<Longrightarrow> x \<notin> set (xs[i := y])"
  using set_update_subset_insert[of xs i y] by auto

lemma findIndex_None_update:
  "findIndex P xs = None \<Longrightarrow> \<not> P y \<Longrightarrow> findIndex P (xs[i := y]) = None"
  using set_update_subset_insert [of xs i y] by (auto simp: findIndex_None_iff)

lemma splice1_last: "splice1 (length xs) (xs @ [y]) = xs"
  by (simp add: splice1_def)

lemma one_copy_appended:
  "serverId \<notin> set ids \<Longrightarrow> tempId \<notin> set ids \<Longrightarrow> serverId \<noteq> tempId \<Longrightarrow>
   one_copy serverId tempId (ids @ [serverId])"
  by (simp add: one_copy_def count_list_0_iff)

lemma one_copy_replaced:
  "serverId \<notin> set ids \<Longrightarrow> tempId \<notin> set ids \<Longrightarrow> serverId \<noteq> tempId \<Longrightarrow>
   i < length ids \<Longrightarrow> one_copy serverId tempId (ids[i := serverId])"
  by (simp add: one_copy_def count_list_update_fresh count_list_0_iff not_in_update)

lemma tasks_createTaskAsync_resolved:
  "tasks (createTaskAsync_resolved tempId newTask s) =
     (case findIndex (\<lambda>t. t_id t = tempId) (tasks s) of
        None \<Rightarrow> tasks s
      | Some i \<Rightarrow>
          (case findIndex (\<lambda>t. t_id t = t_id newTask) (tasks s) of
             None \<Rightarrow> (tasks s)[i := newTask]
           | Some j \<Rightarrow> splice1 i (tasks s)))"
  by (simp add: createTaskAsync_resolved_def Let_def split: option.splits)

lemma tasks_handleTaskChange_create:
  "tasks (handleTaskChange (create_event record) s) =
     (case find (\<lambda>t. t_id t = t_id record) (tasks s) of
        Some existingById \<Rightarrow> tasks s
      | None \<Rightarrow>
          (case findIndex (\<lambda>t. startsWith (t_id t) ''temp_'' \<and>
                                t_project_id t = t_project_id record \<and>
                                t_name t = t_name record) (tasks s) of
             Some tempIndex \<Rightarrow> (tasks s)[tempIndex := record]
           | None \<Rightarrow> tasks s @ [record]))"
  by (simp add: handleTaskChange_def create_event_def Let_def split: option.splits)

lemma task_create_race:
  assumes fresh: "''temp_'' @ now \<notin> set (map t_id (tasks s))"
      "t_id newTask \<notin> set (map t_id (tasks s))" "t_id newTask \<noteq> ''temp_'' @ now"
    and same: "t_id record = t_id newTask" "t_project_id record = parentId"
      "t_name record = name"
  shows "one_copy (t_id newTask) (''temp_'' @ now)
           (map t_id (tasks (createTaskAsync_resolved (''temp_'' @ now) newTask
              (handleTaskChange (create_event record)
                 (createTaskAsync_begin parentId displayId name now created updated s)))))"
    and "one_copy (t_id newTask) (''temp_'' @ now)
           (map t_id (tasks (handleTaskChange (create_event record)
              (createTaskAsync_resolved (''temp_'' @ now) newTask
                 (createTaskAsync_begin parentId displayId name now created updated s)))))"
proof -
  let ?tempId = "''temp_'' @ now"
  let ?ts = "tasks s"
  let ?s1 = "createTaskAsync_begin parentId displayId name now created updated s"
  let ?byTemp = "\<lambda>t. t_id t = ?tempId"
  let ?byReal = "\<lambda>t. t_id t = t_id newTask"
  let ?matches = "\<lambda>t. startsWith (t_id t) ''temp_'' \<and> t_project_id t = t_project_id record \<and>
                      t_name t = t_name record"
  obtain temp where s1: "tasks ?s1 = ?ts @ [temp]" and temp: "t_id temp = ?tempId"
      "t_project_id temp = parentId" "t_name temp = name"
    by (simp add: createTaskAsync_begin_def addTask_def Let_def)
  have noTemp: "findIndex ?byTemp ?ts = None" and noReal: "findIndex ?byReal ?ts = None"
    using fresh by (simp_all add: findIndex_None_image)
  have noReal': "findIndex (\<lambda>t. t_id t = t_id record) ?ts = None"
    using noReal same by simp
  have matches: "?matches temp"
    using temp same by (simp add: startsWith_def)
  have real_not_temp: "\<not> ?byReal temp" "\<not> ?byTemp newTask" "\<not> ?byTemp record"
    using temp fresh same by auto
  \<comment> \<open>the confirmation first, the event second\<close>
  have "findIndex ?byTemp (tasks ?s1) = Some (length ?ts)"
    using noTemp temp by (simp add: s1 findIndex_append_new)
  moreover have "findIndex ?byReal (tasks ?s1) = None"
    using noReal real_not_temp by (simp add: s1 findIndex_None_iff)
  ultimately have confirmed:
    "tasks (createTaskAsync_resolved ?tempId newTask ?s1) = ?ts @ [newTask]"
    by (simp add: tasks_createTaskAsync_resolved s1)
  then have "find (\<lambda>t. t_id t = t_id record) (tasks (createTaskAsync_resolved ?tempId newTask ?s1))
      \<noteq> None"
    using same by (auto simp: find_None_iff)
  then have "tasks (handleTaskChange (create_event record)
      (createTaskAsync_resolved ?tempId newTask ?s1)) = ?ts @ [newTask]"
    using confirmed by (auto simp: tasks_handleTaskChange_create)
  then show "one_copy (t_id newTask) ?tempId
      (map t_id (tasks (handleTaskChange (create_event record)
         (createTaskAsync_resolved ?tempId newTask ?s1))))"
    using fresh by (simp add: one_copy_appended)
  \<comment> \<open>the event first, the confirmation second\<close>
  have unknown: "find (\<lambda>t. t_id t = t_id record) (tasks ?s1) = None"
    using noReal' real_not_temp same by (simp add: s1 find_None_findIndex findIndex_None_iff)
  show "one_copy (t_id newTask) ?tempId
      (map t_id (tasks (createTaskAsync_resolved ?tempId newTask
         (handleTaskChange (create_event record) ?s1))))"
  proof (cases "findIndex ?matches ?ts")
    case None
    then have "findIndex ?matches (tasks ?s1) = Some (length ?ts)"
      using matches by (simp add: s1 findIndex_append_new)
    then have merged: "tasks (handleTaskChange (create_event record) ?s1) = ?ts @ [record]"
      using unknown by (simp add: tasks_handleTaskChange_create s1)
    have "findIndex ?byTemp (?ts @ [record]) = None"
      using noTemp real_not_temp by (simp add: findIndex_None_iff)
    then have "tasks (createTaskAsync_resolved ?tempId newTask
        (handleTaskChange (create_event record) ?s1)) = ?ts @ [record]"
      by (simp add: tasks_createTaskAsync_resolved merged)
    then show ?thesis
      using fresh same by (simp add: one_copy_appended)
  next
    case (Some i)
    from findIndex_Some[OF Some] have i: "i < length ?ts" by simp
    from Some have "findIndex ?matches (tasks ?s1) = Some i"
      by (simp add: s1 findIndex_append_Some)
    then have merged: "tasks (handleTaskChange (create_event record) ?s1) =
        ?ts[i := record] @ [temp]"
      using unknown i by (simp add: tasks_handleTaskChange_create s1 list_update_append1)
    have "findIndex ?byTemp (?ts[i := record]) = None"
      using noTemp real_not_temp by (simp add: findIndex_None_update)
    then have t: "findIndex ?byTemp (?ts[i := record] @ [temp]) = Some (length ?ts)"
      using temp findIndex_append_new[of "?byTemp" "?ts[i := record]" temp] by simp
    have "record \<in> set (?ts[i := record] @ [temp])"
      using i by (simp add: set_update_memI)
    then have "findIndex ?byReal (?ts[i := record] @ [temp]) \<noteq> None"
      using same by (auto simp: findIndex_None_iff)
    then obtain j where r: "findIndex ?byReal (?ts[i := record] @ [temp]) = Some j"
      by auto
    have "splice1 (length ?ts) (?ts[i := record] @ [temp]) = ?ts[i := record]"
      using splice1_last[of "?ts[i := record]" temp] by simp
    then have "tasks (createTaskAsync_resolved ?tempId newTask
        (handleTaskChange (create_event record) ?s1)) = ?ts[i := record]"
      using t r by (simp add: tasks_createTaskAsync_resolved merged)
    then show ?thesis
      using fresh same i by (simp add: map_update one_copy_replaced)
  qed
qed

lemma resources_createResourceAsync_resolved:
  "resources (createResourceAsync_resolved tempId newResource s) =
     (case findIndex (\<lambda>t. r_id t = tempId) (resources s) of
        None \<Rightarrow> resources s
      | Some i \<Rightarrow>
          (case findIndex (\<lambda>t. r_id t = r_id newResource) (resources s) of
             None \<Rightarrow> (resources s)[i := newResource]
           | Some j \<Rightarrow> splice1 i (resources s)))"
  by (simp add: createResourceAsync_resolved_def Let_def split: option.splits)

lemma resources_handleResourceChange_create:
  "resources (handleResourceChange (create_event record) s) =
     (case find (\<lambda>t. r_id t = r_id record) (resources s) of
        Some existingById \<Rightarrow> resources s
      | None \<Rightarrow>
          (case findIndex (\<lambda>t. startsWith (r_id t) ''temp_'' \<and>
                                r_task_id t = r_task_id record \<and>
                                r_name t = r_name record) (resources s) of
             Some tempIndex \<Rightarrow> (resources s)[tempIndex := record]
           | None \<Rightarrow> resources s @ [record]))"
  by (simp add: handleResourceChange_def create_event_def Let_def split: option.splits)

lemma resource_create_race:
  assumes fresh: "''temp_'' @ now \<notin> set (map r_id (resources s))"
      "r_id newResource \<notin> set (map r_id (resources s))" "r_id newResource \<noteq> ''temp_'' @ now"
    and same: "r_id record = r_id newResource" "r_task_id record = parentId"
      "r_name record = name"
  shows "one_copy (r_id newResource) (''temp_'' @ now)
           (map r_id (resources (createResourceAsync_resolved (''temp_'' @ now) newResource
              (handleResourceChange (create_event record)
                 (createResourceAsync_begin parentId name now created updated s)))))"
    and "one_copy (r_id newResource) (''temp_'' @ now)
           (map r_id (resources (handleResourceChange (create_event record)
              (createResourceAsync_resolved (''temp_'' @ now) newResource
                 (createResourceAsync_begin parentId name now created updated s)))))"
proof -
  let ?tempId = "''temp_'' @ now"
  let ?rs = "resources s"
  let ?s1 = "createResourceAsync_begin parentId name now created updated s"
  let ?byTemp = "\<lambda>t. r_id t = ?tempId"
  let ?byReal = "\<lambda>t. r_id t = r_id newResource"
  let ?matches = "\<lambda>t. startsWith (r_id t) ''temp_'' \<and> r_task_id t = r_task_id record \<and>
                      r_name t = r_name record"
  obtain temp where s1: "resources ?s1 = ?rs @ [temp]" and temp: "r_id temp = ?tempId"
      "r_task_id temp = parentId" "r_name temp = name"
    by (simp add: createResourceAsync_begin_def addResource_def Let_def)
  have noTemp: "findIndex ?byTemp ?rs = None" and noReal: "findIndex ?byReal ?rs = None"
    using fresh by (simp_all add: findIndex_None_image)
  have noReal': "findIndex (\<lambda>t. r_id t = r_id record) ?rs = None"
    using noReal same by simp
  have matches: "?matches temp"
    using temp same by (simp add: startsWith_def)
  have real_not_temp: "\<not> ?byReal temp" "\<not> ?byTemp newResource" "\<not> ?byTemp record"
    using temp fresh same by auto
  \<comment> \<open>the confirmation first, the event second\<close>
  have "findIndex ?byTemp (resources ?s1) = Some (length ?rs)"
    using noTemp temp by (simp add: s1 findIndex_append_new)
  moreover have "findIndex ?byReal (resources ?s1) = None"
    using noReal real_not_temp by (simp add: s1 findIndex_None_iff)
  ultimately have confirmed:
    "resources (createResourceAsync_resolved ?tempId newResource ?s1) = ?rs @ [newResource]"
    by (simp add: resources_createResourceAsync_resolved s1)
  then have "find (\<lambda>t. r_id t = r_id record) (resources (createResourceAsync_resolved ?tempId newResource ?s1))
      \<noteq> None"
    using same by (auto simp: find_None_iff)
  then have "resources (handleResourceChange (create_event record)
      (createResourceAsync_resolved ?tempId newResource ?s1)) = ?rs @ [newResource]"
    using confirmed by (auto simp: resources_handleResourceChange_create)
  then show "one_copy (r_id newResource) ?tempId
      (map r_id (resources (handleResourceChange (create_event record)
         (createResourceAsync_resolved ?tempId newResource ?s1))))"
    using fresh by (simp add: one_copy_appended)
  \<comment> \<open>the event first, the confirmation second\<close>
  have unknown: "find (\<lambda>t. r_id t = r_id record) (resources ?s1) = None"
    using noReal' real_not_temp same by (simp add: s1 find_None_findIndex findIndex_None_iff)
  show "one_copy (r_id newResource) ?tempId
      (map r_id (resources (createResourceAsync_resolved ?tempId newResource
         (handleResourceChange (create_event record) ?s1))))"
  proof (cases "findIndex ?matches ?rs")
    case None
    then have "findIndex ?matches (resources ?s1) = Some (length ?rs)"
      using matches by (simp add: s1 findIndex_append_new)
    then have merged: "resources (handleResourceChange (create_event record) ?s1) = ?rs @ [record]"
      using unknown by (simp add: resources_handleResourceChange_create s1)
    have "findIndex ?byTemp (?rs @ [record]) = None"
      using noTemp real_not_temp by (simp add: findIndex_None_iff)
    then have "resources (createResourceAsync_resolved ?tempId newResource
        (handleResourceChange (create_event record) ?s1)) = ?rs @ [record]"
      by (simp add: resources_createResourceAsync_resolved merged)
    then show ?thesis
      using fresh same by (simp add: one_copy_appended)
  next
    case (Some i)
    from findIndex_Some[OF Some] have i: "i < length ?rs" by simp
    from Some have "findIndex ?matches (resources ?s1) = Some i"
      by (simp add: s1 findIndex_append_Some)
    then have merged: "resources (handleResourceChange (create_event record) ?s1) =
        ?rs[i := record] @ [temp]"
      using unknown i by (simp add: resources_handleResourceChange_create s1 list_update_append1)
    have "findIndex ?byTemp (?rs[i := record]) = None"
      using noTemp real_not_temp by (simp add: findIndex_None_update)
    then have t: "findIndex ?byTemp (?rs[i := record] @ [temp]) = Some (length ?rs)"
      using temp findIndex_append_new[of "?byTemp" "?rs[i := record]" temp] by simp
    have "record \<in> set (?rs[i := record] @ [temp])"
      using i by (simp add: set_update_memI)
    then have "findIndex ?byReal (?rs[i := record] @ [temp]) \<noteq> None"
      using same by (auto simp: findIndex_None_iff)
    then obtain j where r: "findIndex ?byReal (?rs[i := record] @ [temp]) = Some j"
      by auto
    have "splice1 (length ?rs) (?rs[i := record] @ [temp]) = ?rs[i := record]"
      using splice1_last[of "?rs[i := record]" temp] by simp
    then have "resources (createResourceAsync_resolved ?tempId newResource
        (handleResourceChange (create_event record) ?s1)) = ?rs[i := record]"
      using t r by (simp add: resources_createResourceAsync_resolved merged)
    then show ?thesis
      using fresh same i by (simp add: map_update one_copy_replaced)
  qed
qed


text \<open>
  When the temporary identifier is not in the collection already: the server's
  record, whose identifier the store does not hold yet, comes back both as the
  result of the remote call and as a realtime \<open>create\<close> event with the same
  parent and name. Whichever of the success handler and \<open>handleTaskChange\<close>
  (\<open>handleResourceChange\<close>) runs first, after both the server identifier occurs
  exactly once in the collection and the temporary identifier not at all.
\<close>

lemma fresh_temporary_id_keeps_one_copy:
  assumes "''temp_'' @ now \<notin> set (map t_id (tasks s))"
    and "t_id newTask \<notin> set (map t_id (tasks s))"
    and "t_id newTask \<noteq> ''temp_'' @ now"
    and "t_id taskRecord = t_id newTask"
    and "t_project_id taskRecord = parentId"
    and "t_name taskRecord = taskName"
    and "''temp_'' @ now \<notin> set (map r_id (resources s))"
    and "r_id newResource \<notin> set (map r_id (resources s))"
    and "r_id newResource \<noteq> ''temp_'' @ now"
    and "r_id resourceRecord = r_id newResource"
    and "r_task_id resourceRecord = taskId"
    and "r_name resourceRecord = resourceName"
  shows
    "one_copy (t_id newTask) (''temp_'' @ now)
       (map t_id (tasks (createTaskAsync_resolved (''temp_'' @ now) newTask
          (handleTaskChange (create_event taskRecord)
             (createTaskAsync_begin parentId displayId taskName now created updated s))))) \<and>
     one_copy (t_id newTask) (''temp_'' @ now)
       (map t_id (tasks (handleTaskChange (create_event taskRecord)
          (createTaskAsync_resolved (''temp_'' @ now) newTask
             (createTaskAsync_begin parentId displayId taskName now created updated s))))) \<and>
     one_copy (r_id newResource) (''temp_'' @ now)
       (map r_id (resources (createResourceAsync_resolved (''temp_'' @ now) newResource
          (handleResourceChange (create_event resourceRecord)
             (createResourceAsync_begin taskId resourceName now created updated s))))) \<and>
     one_copy (r_id newResource) (''temp_'' @ now)
       (map r_id (resources (handleResourceChange (create_event resourceRecord)
          (createResourceAsync_resolved (''temp_'' @ now) newResource
             (createResourceAsync_begin taskId resourceName now created updated s)))))"
  using task_create_race [OF assms(1-6)] resource_create_race [OF assms(7-12)]
  by blast



section \<open>Properties of the allocation cells\<close>

lemma distinct_keys_at_most_one:
  "distinct (map f xs) \<Longrightarrow> length (filter (\<lambda>x. f x = k) xs) \<le> 1"
proof (induction xs)
  case Nil
  then show ?case by simp
next
  case (Cons x xs)
  show ?case
  proof (cases "f x = k")
    case True
    from Cons.prems have "f x \<notin> f ` set xs" by simp
    then have "\<forall>y\<in>set xs. f y \<noteq> f x" by (metis imageI)
    with True have "filter (\<lambda>x. f x = k) xs = []"
      by (simp add: filter_empty_conv)
    with True show ?thesis by simp
  next
    case False
    with Cons show ?thesis by simp
  qed
qed

lemma at_most_one_distinct_keys:
  "(\<forall>k. length (filter (\<lambda>x. f x = k) xs) \<le> 1) \<Longrightarrow> distinct (map f xs)"
proof (induction xs)
  case Nil
  then show ?case by simp
next
  case (Cons x xs)
  have "f x \<notin> f ` set xs"
  proof
    assume "f x \<in> f ` set xs"
    then obtain y where "y \<in> set xs" "f y = f x" by auto
    then have "filter (\<lambda>z. f z = f x) xs \<noteq> []"
      by (auto simp: filter_empty_conv)
    then have "length (filter (\<lambda>z. f z = f x) xs) \<ge> 1"
      by (cases "filter (\<lambda>z. f z = f x) xs") auto
    moreover from Cons.prems have "length (filter (\<lambda>z. f z = f x) (x # xs)) \<le> 1"
      by blast
    ultimately show False by simp
  qed
  moreover have "\<forall>k. length (filter (\<lambda>x. f x = k) xs) \<le> 1"
  proof
    fix k
    from Cons.prems have "length (filter (\<lambda>x. f x = k) (x # xs)) \<le> 1" by blast
    then show "length (filter (\<lambda>x. f x = k) xs) \<le> 1"
      by (simp split: if_splits)
  qed
  ultimately show ?case using Cons.IH by simp
qed

lemma map_update_same_key:
  "i < length xs \<Longrightarrow> f y = f (xs ! i) \<Longrightarrow> map f (xs[i := y]) = map f xs"
  by (simp add: map_update list_update_same_conv)

lemma key_findIndex:
  "findIndex (\<lambda>a. a_resource_id a = R \<and> a_date a = D) xs = Some i \<Longrightarrow>
   i < length xs \<and> allocation_key (xs ! i) = (R, D)"
  by (drule findIndex_Some) (simp add: allocation_key_def)

lemma key_findIndex_None:
  "findIndex (\<lambda>a. a_resource_id a = R \<and> a_date a = D) xs = None \<Longrightarrow>
   (R, D) \<notin> set (map allocation_key xs)"
  by (auto simp: findIndex_None_iff allocation_key_def)

lemma setAllocation_keys:
  assumes "distinct (map allocation_key (allocations s))"
  shows "distinct (map allocation_key (allocations (setAllocation R D p c x cr up s)))"
proof (cases "findIndex (\<lambda>a. a_resource_id a = R \<and> a_date a = D) (allocations s)")
  case None
  with assms key_findIndex_None[OF None] show ?thesis
    by (simp add: setAllocation_def allocation_key_def)
next
  case (Some i)
  from key_findIndex[OF Some] have "i < length (allocations s)" by simp
  then have "map allocation_key ((allocations s)
      [i := (allocations s ! i)\<lparr> a_percentage := p, a_color_hex := c \<rparr>]) =
      map allocation_key (allocations s)"
    by (rule map_update_same_key) (simp add: allocation_key_def)
  with assms Some show ?thesis
    by (simp add: setAllocation_def)
qed

lemma removeAllocation_keys:
  assumes "distinct (map allocation_key (allocations s))"
  shows "distinct (map allocation_key (allocations (removeAllocation R D s)))"
  using assms by (simp add: removeAllocation_def distinct_map_filter)

lemma setAllocationAsync_resolved_keys:
  assumes "distinct (map allocation_key (allocations s))"
    and "a_resource_id saved = R" "a_date saved = D"
  shows "distinct (map allocation_key (allocations (setAllocationAsync_resolved R D saved s)))"
proof (cases "findIndex (\<lambda>a. a_resource_id a = R \<and> a_date a = D) (allocations s)")
  case None
  with assms show ?thesis by (simp add: setAllocationAsync_resolved_def)
next
  case (Some i)
  from key_findIndex[OF Some] assms(2,3)
  have "map allocation_key ((allocations s)[i := saved]) = map allocation_key (allocations s)"
    by (intro map_update_same_key) (simp_all add: allocation_key_def)
  with assms Some show ?thesis
    by (simp add: setAllocationAsync_resolved_def)
qed


lemma handleAllocationChange_keys:
  assumes d: "distinct (map allocation_key (allocations s))"
    and k: "keeps_key s (AllocationChange e)"
  shows "distinct (map allocation_key (allocations (handleAllocationChange e s)))"
proof (cases "ev_action e")
  case Create
  let ?P = "\<lambda>a. a_id a = a_id (ev_record e) \<or>
      (a_resource_id a = a_resource_id (ev_record e) \<and> a_date a = a_date (ev_record e))"
  show ?thesis
  proof (cases "findIndex ?P (allocations s)")
    case None
    then have "find ?P (allocations s) = None"
      by (simp add: find_None_findIndex)
    moreover from None have "allocation_key (ev_record e) \<notin> set (map allocation_key (allocations s))"
      by (auto simp: findIndex_None_iff allocation_key_def)
    ultimately show ?thesis using Create d
      by (simp add: handleAllocationChange_def Let_def)
  next
    case (Some i)
    note found = find_findIndex[OF Some]
    from findIndex_Some[OF Some] have i: "i < length (allocations s)" "?P (allocations s ! i)"
      by simp_all
    show ?thesis
    proof (cases "a_id (allocations s ! i) = a_id (ev_record e)")
      case True
      with Create found d show ?thesis
        by (simp add: handleAllocationChange_def Let_def)
    next
      case False
      with i have "allocation_key (ev_record e) = allocation_key (allocations s ! i)"
        by (auto simp: allocation_key_def)
      with i(1) have "map allocation_key ((allocations s)[i := ev_record e]) =
          map allocation_key (allocations s)"
        by (intro map_update_same_key)
      with Create found Some False d show ?thesis
        by (simp add: handleAllocationChange_def Let_def)
    qed
  qed
next
  case Update
  show ?thesis
  proof (cases "findIndex (\<lambda>a. a_id a = a_id (ev_record e)) (allocations s)")
    case (Some i)
    from find_findIndex[OF Some] k Update
    have "allocation_key (ev_record e) = allocation_key (allocations s ! i)"
      by simp
    moreover from findIndex_Some[OF Some] have "i < length (allocations s)" by simp
    ultimately have "map allocation_key ((allocations s)[i := ev_record e]) =
        map allocation_key (allocations s)"
      by (intro map_update_same_key)
    with Update Some d show ?thesis
      by (simp add: handleAllocationChange_def Let_def)
  next
    case None
    show ?thesis
    proof (cases "findIndex (\<lambda>a. a_resource_id a = a_resource_id (ev_record e) \<and>
        a_date a = a_date (ev_record e)) (allocations s)")
      case inner: None
      with Update None d show ?thesis
        by (simp add: handleAllocationChange_def Let_def)
    next
      case inner: (Some j)
      from key_findIndex[OF inner]
      have "map allocation_key ((allocations s)[j := ev_record e]) =
          map allocation_key (allocations s)"
        by (intro map_update_same_key) (simp_all add: allocation_key_def)
      with Update None inner d show ?thesis
        by (simp add: handleAllocationChange_def Let_def)
    qed
  qed
next
  case Delete
  with d show ?thesis
    by (simp add: handleAllocationChange_def Let_def distinct_map_filter)
qed

lemma apply_allocation_op_keys:
  assumes "distinct (map allocation_key (allocations s))" and "keeps_key s x"
  shows "distinct (map allocation_key (allocations (apply_allocation_op x s)))"
proof (cases x)
  case (SetAllocation R D p c suffix cr up)
  with assms show ?thesis by (simp add: setAllocation_keys)
next
  case (RemoveAllocation R D)
  with assms show ?thesis by (simp add: removeAllocation_keys)
next
  case (SetAllocationResolved R D saved)
  with assms show ?thesis by (simp add: setAllocationAsync_resolved_keys)
next
  case (AllocationChange e)
  with assms show ?thesis using handleAllocationChange_keys by simp
qed

lemma run_allocation_ops_keys:
  "distinct (map allocation_key (allocations s)) \<Longrightarrow> keep_keys s ops \<Longrightarrow>
   distinct (map allocation_key (allocations (run_allocation_ops ops s)))"
proof (induction ops arbitrary: s)
  case Nil
  then show ?case by (simp add: run_allocation_ops_def)
next
  case (Cons x ops)
  from Cons.prems have "distinct (map allocation_key (allocations (apply_allocation_op x s)))"
    by (simp add: apply_allocation_op_keys)
  with Cons.prems Cons.IH[of "apply_allocation_op x s"] show ?case
    by (simp add: run_allocation_ops_def)
qed

lemma allocations_at_key:
  "allocations_at R D s = filter (\<lambda>a. allocation_key a = (R, D)) (allocations s)"
  by (simp add: allocations_at_def allocation_key_def)

text \<open>
  C2 (as amended). From a store with at most one allocation per resource and
  date, any sequence of \<open>setAllocation\<close>, \<open>removeAllocation\<close>, resolved
  \<open>setAllocationAsync\<close> calls and allocation events leaves at most one allocation
  per resource and date, provided every confirmed record has the resource and
  date asked for and no \<open>update\<close> event moves a stored allocation to another
  resource or date.
\<close>

theorem one_allocation_per_cell:
  assumes "\<forall>resourceId date. length (allocations_at resourceId date s) \<le> 1"
    and "keep_keys s ops"
  shows "length (allocations_at R D (run_allocation_ops ops s)) \<le> 1"
proof -
  from assms(1) have "\<forall>k. length (filter (\<lambda>a. allocation_key a = k) (allocations s)) \<le> 1"
    by (simp add: allocations_at_key)
  then have "distinct (map allocation_key (allocations s))"
    by (rule at_most_one_distinct_keys)
  then have "distinct (map allocation_key (allocations (run_allocation_ops ops s)))"
    using assms(2) by (rule run_allocation_ops_keys)
  then show ?thesis
    unfolding allocations_at_key by (rule distinct_keys_at_most_one)
qed

lemmas allocation_op_defs = painting_ops_def moving_ops_def run_allocation_ops_def
  allocations_at_def allocation_key_def setAllocation_def setAllocationAsync_resolved_def
  removeAllocation_def handleAllocationChange_def update_event_def create_event_def
  example_allocation_def initialState_def recompute_def Let_def

theorem one_allocation_per_cell_witness:
  "length (allocations_at ''r1'' ''2024-01-01'' initialState) = 0 \<and>
   keep_keys initialState painting_ops \<and>
   length (allocations_at ''r1'' ''2024-01-01'' (run_allocation_ops painting_ops initialState)) \<le> 1 \<and>
   map a_percentage (allocations (run_allocation_ops painting_ops initialState)) = [50]"
proof -
  have empty: "\<forall>resourceId date. length (allocations_at resourceId date initialState) \<le> 1"
    by (simp add: allocations_at_def initialState_def)
  have keep: "keep_keys initialState painting_ops"
    by (simp add: allocation_op_defs)
  have painted: "map a_percentage (allocations (run_allocation_ops painting_ops initialState)) = [50]"
    by (simp add: allocation_op_defs)
  show ?thesis
    using one_allocation_per_cell [OF empty keep, of "''r1''" "''2024-01-01''"] keep painted
    by (simp add: allocations_at_def initialState_def)
qed

text \<open>
  A cell is painted locally, another resource's allocation for the same date
  arrives, and an \<open>update\<close> event then carries that allocation with the first
  resource: the store holds two allocations for the painted cell.
\<close>

theorem moved_allocation_counterexample:
  "length (allocations_at ''r1'' ''2024-01-01'' (run_allocation_ops moving_ops initialState)) = 2"
  by (simp add: allocation_op_defs)

section \<open>Properties of the realtime subscription\<close>

lemma extends_refl [simp]: "extends w w"
  by (simp add: extends_def)

lemma extends_trans: "extends w w' \<Longrightarrow> extends w' w'' \<Longrightarrow> extends w w''"
  by (auto simp: extends_def)

lemma extends_same_calls: "w_calls w' = w_calls w \<Longrightarrow> extends w w'"
  by (simp add: extends_def)

lemma invoked_then_extends:
  "invoked_during w w' c \<Longrightarrow> extends w' w'' \<Longrightarrow> invoked_during w w'' c"
proof -
  assume "invoked_during w w' c" and "extends w' w''"
  then obtain before after new where "w_calls w' = w_calls w @ before @ [c] @ after"
    and "w_calls w'' = w_calls w' @ new"
    by (auto simp: extends_def invoked_during_def)
  then have "w_calls w'' = w_calls w @ before @ [c] @ (after @ new)" by simp
  then show ?thesis unfolding invoked_during_def by blast
qed

lemma extends_then_invoked:
  "extends w w' \<Longrightarrow> invoked_during w' w'' c \<Longrightarrow> invoked_during w w'' c"
proof -
  assume "extends w w'" and "invoked_during w' w'' c"
  then obtain new before after where "w_calls w' = w_calls w @ new"
    and "w_calls w'' = w_calls w' @ before @ [c] @ after"
    by (auto simp: extends_def invoked_during_def)
  then have "w_calls w'' = w_calls w @ (new @ before) @ [c] @ after" by simp
  then show ?thesis unfolding invoked_during_def by blast
qed

lemma same_calls_invoked:
  "w_calls w0 = w_calls w \<Longrightarrow> invoked_during w w' c \<Longrightarrow> invoked_during w0 w' c"
  by (simp add: invoked_during_def)

lemma invoked_same_calls:
  "invoked_during w w' c \<Longrightarrow> w_calls w'' = w_calls w' \<Longrightarrow> invoked_during w w'' c"
  by (simp add: invoked_during_def)

subsection \<open>Allocations\<close>

lemma onAllocationChange_sub [simp]: "w_sub (onAllocationChange e w) = w_sub w"
  by (simp add: onAllocationChange_def)

lemma onAllocationChange_invoked:
  "invoked_during w (onAllocationChange e w) (OnAllocationChange e)"
  unfolding invoked_during_def onAllocationChange_def
  by (intro exI[of _ "[]"]) simp

lemma onAllocationChange_extends: "extends w (onAllocationChange e w)"
  by (simp add: extends_def onAllocationChange_def)

lemma deliver_allocation_sub [simp]: "w_sub (deliver_allocation e w) = w_sub w"
  by (simp add: deliver_allocation_def)

lemma deliver_allocation_extends: "extends w (deliver_allocation e w)"
  by (simp add: deliver_allocation_def onAllocationChange_extends)

lemma deliver_allocations_sub:
  "w_sub (fold deliver_allocation es w) = w_sub w"
  by (induction es arbitrary: w) simp_all

lemma deliver_allocations_extends:
  "extends w (fold deliver_allocation es w)"
proof (induction es arbitrary: w)
  case Nil
  then show ?case by simp
next
  case (Cons e es)
  show ?case
    using Cons[of "deliver_allocation e w"] deliver_allocation_extends[of w e]
    by (auto intro: extends_trans)
qed

lemma deliver_allocations_invoked:
  assumes "e \<in> set es" and "a_resource_id (ev_record e) \<in> resourceIds (w_sub w)"
  shows "invoked_during w
           (fold deliver_allocation es w)
           (OnAllocationChange e)"
  using assms
proof (induction es arbitrary: w)
  case Nil
  then show ?case by simp
next
  case (Cons x es)
  let ?step = deliver_allocation
  show ?case
  proof (cases "x = e")
    case True
    have "invoked_during w (deliver_allocation e w) (OnAllocationChange e)"
      using Cons.prems(2) by (simp add: deliver_allocation_def onAllocationChange_invoked)
    then have "invoked_during w (fold ?step es (deliver_allocation e w)) (OnAllocationChange e)"
      using deliver_allocations_extends by (rule invoked_then_extends)
    with True show ?thesis by simp
  next
    case False
    with Cons.prems have e: "e \<in> set es" by simp
    have "extends w (?step x w)"
      by (rule deliver_allocation_extends)
    moreover have "invoked_during (?step x w) (fold ?step es (?step x w)) (OnAllocationChange e)"
      using Cons.IH[OF e, of "?step x w"] Cons.prems(2) by simp
    ultimately show ?thesis
      using extends_then_invoked by fastforce
  qed
qed

lemma processPendingAllocations_sub:
  "w_sub (processPendingAllocations w) = (w_sub w)\<lparr> pendingAllocations := [] \<rparr>"
  by (simp add: processPendingAllocations_def Let_def deliver_allocations_sub)

lemma processPendingAllocations_extends: "extends w (processPendingAllocations w)"
proof -
  have "extends (w\<lparr> w_sub := (w_sub w)\<lparr> pendingAllocations := [] \<rparr> \<rparr>) (processPendingAllocations w)"
    unfolding processPendingAllocations_def Let_def by (rule deliver_allocations_extends)
  then show ?thesis by (simp add: extends_def)
qed

lemma processPendingAllocations_invoked:
  assumes "e \<in> set (pendingAllocations (w_sub w))"
    and "a_resource_id (ev_record e) \<in> resourceIds (w_sub w)"
  shows "invoked_during w (processPendingAllocations w) (OnAllocationChange e)"
proof -
  let ?w = "w\<lparr> w_sub := (w_sub w)\<lparr> pendingAllocations := [] \<rparr> \<rparr>"
  have "invoked_during ?w (processPendingAllocations w) (OnAllocationChange e)"
    unfolding processPendingAllocations_def Let_def
    using assms by (intro deliver_allocations_invoked) simp_all
  then show ?thesis by (simp add: invoked_during_def)
qed

lemma updateResourceIds_sub:
  "w_sub (updateResourceIds ids w) =
     (w_sub w)\<lparr> resourceIds := set ids, pendingAllocations := [] \<rparr>"
  by (simp add: updateResourceIds_def processPendingAllocations_sub)

lemma updateResourceIds_extends: "extends w (updateResourceIds ids w)"
proof -
  have "extends (w\<lparr> w_sub := (w_sub w)\<lparr> resourceIds := set ids \<rparr> \<rparr>) (updateResourceIds ids w)"
    unfolding updateResourceIds_def by (rule processPendingAllocations_extends)
  then show ?thesis by (simp add: extends_def)
qed

lemma updateResourceIds_invoked:
  assumes "e \<in> set (pendingAllocations (w_sub w))"
    and "a_resource_id (ev_record e) \<in> set ids"
  shows "invoked_during w (updateResourceIds ids w) (OnAllocationChange e)"
proof -
  let ?w = "w\<lparr> w_sub := (w_sub w)\<lparr> resourceIds := set ids \<rparr> \<rparr>"
  have "invoked_during ?w (updateResourceIds ids w) (OnAllocationChange e)"
    unfolding updateResourceIds_def
    using assms by (intro processPendingAllocations_invoked) simp_all
  then show ?thesis by (simp add: invoked_during_def)
qed


subsection \<open>Resources\<close>

lemma created_resource_in_draft:
  assumes "ev_action e = Create"
  shows "r_id (ev_record e) \<in> set (map r_id (resources (handleResourceChange e s)))"
proof (cases "find (\<lambda>r. r_id r = r_id (ev_record e)) (resources s)")
  case None
  with assms have "ev_record e \<in> set (resources (handleResourceChange e s))"
    by (auto simp: handleResourceChange_def Let_def set_update_memI
        dest: findIndex_Some split: option.splits)
  then show ?thesis by (metis imageI set_map)
next
  case (Some r)
  then have "r \<in> set (resources s)" "r_id r = r_id (ev_record e)"
    by (auto simp: find_Some_iff)
  then have "r_id (ev_record e) \<in> set (map r_id (resources s))"
    by (metis imageI set_map)
  with assms Some show ?thesis
    by (simp add: handleResourceChange_def Let_def)
qed

lemma created_task_in_draft:
  assumes "ev_action e = Create"
  shows "t_id (ev_record e) \<in> set (map t_id (tasks (handleTaskChange e s)))"
proof (cases "find (\<lambda>t. t_id t = t_id (ev_record e)) (tasks s)")
  case None
  with assms have "ev_record e \<in> set (tasks (handleTaskChange e s))"
    by (auto simp: handleTaskChange_def Let_def set_update_memI
        dest: findIndex_Some split: option.splits)
  then show ?thesis by (metis imageI set_map)
next
  case (Some t)
  then have "t \<in> set (tasks s)" "t_id t = t_id (ev_record e)"
    by (auto simp: find_Some_iff)
  then have "t_id (ev_record e) \<in> set (map t_id (tasks s))"
    by (metis imageI set_map)
  with assms Some show ?thesis
    by (simp add: handleTaskChange_def Let_def)
qed

lemma handleResourceChange_set_frame:
  "taskIds (w_sub (handleResourceChange_set e w)) = taskIds (w_sub w) \<and>
   pendingResources (w_sub (handleResourceChange_set e w)) = pendingResources (w_sub w) \<and>
   projectId (w_sub (handleResourceChange_set e w)) = projectId (w_sub w)"
  by (simp add: handleResourceChange_set_def Let_def updateResourceIds_sub)

lemma handleResourceChange_set_extends: "extends w (handleResourceChange_set e w)"
proof -
  have "extends w ((updateResourceIds ids w)\<lparr> w_store := d \<rparr>)" for ids d
    using updateResourceIds_extends[of w ids] by (simp add: extends_def)
  then show ?thesis
    by (simp add: handleResourceChange_set_def Let_def extends_def)
qed

text \<open>
  After the store's handler has run on a \<open>create\<close> event of a resource, a queued
  allocation event of that resource has been delivered, or the closure and the
  trace are as they were.
\<close>

lemma handleResourceChange_set_allocations:
  assumes "ev_action re = Create"
    and "e \<in> set (pendingAllocations (w_sub w))"
    and "a_resource_id (ev_record e) = r_id (ev_record re)"
  shows "invoked_during w (handleResourceChange_set re w) (OnAllocationChange e) \<or>
         (w_sub (handleResourceChange_set re w) = w_sub w \<and>
          w_calls (handleResourceChange_set re w) = w_calls w)"
proof (cases "find (\<lambda>r. r_id r = r_id (ev_record re)) (resources (w_store w)) \<noteq> None \<or>
              \<not> subscription (w_store w)")
  case True
  with assms(1) show ?thesis
    by (auto simp: handleResourceChange_set_def Let_def)
next
  case False
  let ?ids = "map r_id (resources (handleResourceChange re (w_store w)))"
  have "a_resource_id (ev_record e) \<in> set ?ids"
    using created_resource_in_draft[OF assms(1)] assms(3) by simp
  with assms(2) have "invoked_during w (updateResourceIds ?ids w) (OnAllocationChange e)"
    by (rule updateResourceIds_invoked)
  then have "invoked_during w (handleResourceChange_set re w) (OnAllocationChange e)"
    using False assms(1)
    by (simp add: handleResourceChange_set_def Let_def invoked_during_def)
  then show ?thesis ..
qed

lemma onResourceChange_frame:
  "taskIds (w_sub (onResourceChange e w)) = taskIds (w_sub w) \<and>
   pendingResources (w_sub (onResourceChange e w)) = pendingResources (w_sub w) \<and>
   projectId (w_sub (onResourceChange e w)) = projectId (w_sub w)"
  by (simp add: onResourceChange_def handleResourceChange_set_frame)

lemma onResourceChange_invoked:
  "invoked_during w (onResourceChange e w) (OnResourceChange e)"
proof -
  let ?w = "w\<lparr> w_calls := w_calls w @ [OnResourceChange e] \<rparr>"
  have "invoked_during w ?w (OnResourceChange e)"
    unfolding invoked_during_def by (intro exI[of _ "[]"]) simp
  then show ?thesis
    unfolding onResourceChange_def
    using handleResourceChange_set_extends by (rule invoked_then_extends)
qed

lemma invoked_extends: "invoked_during w w' c \<Longrightarrow> extends w w'"
  by (auto simp: invoked_during_def extends_def)

lemma onResourceChange_extends: "extends w (onResourceChange e w)"
  using onResourceChange_invoked by (rule invoked_extends)

lemma onResourceChange_allocations:
  assumes "ev_action re = Create"
    and "e \<in> set (pendingAllocations (w_sub w))"
    and "a_resource_id (ev_record e) = r_id (ev_record re)"
  shows "invoked_during w (onResourceChange re w) (OnAllocationChange e) \<or>
         e \<in> set (pendingAllocations (w_sub (onResourceChange re w)))"
proof -
  let ?w = "w\<lparr> w_calls := w_calls w @ [OnResourceChange re] \<rparr>"
  have ext: "extends w ?w" by (simp add: extends_def)
  from handleResourceChange_set_allocations[OF assms(1), of e ?w] assms(2,3)
  have "invoked_during ?w (handleResourceChange_set re ?w) (OnAllocationChange e) \<or>
        w_sub (handleResourceChange_set re ?w) = w_sub ?w"
    by auto
  then show ?thesis
  proof
    assume "invoked_during ?w (handleResourceChange_set re ?w) (OnAllocationChange e)"
    with ext have "invoked_during w (handleResourceChange_set re ?w) (OnAllocationChange e)"
      by (rule extends_then_invoked)
    then show ?thesis by (simp add: onResourceChange_def)
  next
    assume "w_sub (handleResourceChange_set re ?w) = w_sub ?w"
    with assms(2) show ?thesis by (simp add: onResourceChange_def)
  qed
qed

lemma deliver_resource_frame:
  "taskIds (w_sub (deliver_resource e w)) = taskIds (w_sub w) \<and>
   pendingResources (w_sub (deliver_resource e w)) = pendingResources (w_sub w) \<and>
   projectId (w_sub (deliver_resource e w)) = projectId (w_sub w)"
  by (simp add: deliver_resource_def Let_def onResourceChange_frame split: action.splits)

lemma deliver_resource_extends: "extends w (deliver_resource e w)"
  using onResourceChange_extends[of w e]
  by (simp add: deliver_resource_def Let_def extends_def split: action.splits)

lemma deliver_resource_invoked:
  "r_task_id (ev_record e) \<in> taskIds (w_sub w) \<Longrightarrow>
   invoked_during w (deliver_resource e w) (OnResourceChange e)"
  using onResourceChange_invoked[of w e]
  by (simp add: deliver_resource_def Let_def invoked_during_def split: action.splits)

lemma deliver_resources_frame:
  "taskIds (w_sub (fold deliver_resource es w)) = taskIds (w_sub w) \<and>
   pendingResources (w_sub (fold deliver_resource es w)) = pendingResources (w_sub w) \<and>
   projectId (w_sub (fold deliver_resource es w)) = projectId (w_sub w)"
  by (induction es arbitrary: w) (simp_all add: deliver_resource_frame)

lemma deliver_resources_extends: "extends w (fold deliver_resource es w)"
proof (induction es arbitrary: w)
  case Nil
  then show ?case by simp
next
  case (Cons e es)
  show ?case
    using Cons[of "deliver_resource e w"] deliver_resource_extends[of w e]
    by (auto intro: extends_trans)
qed

lemma deliver_resources_invoked:
  assumes "e \<in> set es" and "r_task_id (ev_record e) \<in> taskIds (w_sub w)"
  shows "invoked_during w (fold deliver_resource es w) (OnResourceChange e)"
  using assms
proof (induction es arbitrary: w)
  case Nil
  then show ?case by simp
next
  case (Cons x es)
  show ?case
  proof (cases "x = e")
    case True
    have "invoked_during w (deliver_resource e w) (OnResourceChange e)"
      using Cons.prems(2) by (rule deliver_resource_invoked)
    then have "invoked_during w (fold deliver_resource es (deliver_resource e w))
        (OnResourceChange e)"
      using deliver_resources_extends by (rule invoked_then_extends)
    with True show ?thesis by simp
  next
    case False
    with Cons.prems have e: "e \<in> set es" by simp
    have "extends w (deliver_resource x w)"
      by (rule deliver_resource_extends)
    moreover have "invoked_during (deliver_resource x w)
        (fold deliver_resource es (deliver_resource x w)) (OnResourceChange e)"
      using Cons.IH[OF e, of "deliver_resource x w"] Cons.prems(2)
      by (simp add: deliver_resource_frame)
    ultimately show ?thesis
      using extends_then_invoked by fastforce
  qed
qed

lemma processPendingResources_frame:
  "taskIds (w_sub (processPendingResources w)) = taskIds (w_sub w) \<and>
   pendingResources (w_sub (processPendingResources w)) = [] \<and>
   projectId (w_sub (processPendingResources w)) = projectId (w_sub w)"
  by (simp add: processPendingResources_def Let_def deliver_resources_frame)

lemma processPendingResources_extends: "extends w (processPendingResources w)"
proof -
  have "extends (w\<lparr> w_sub := (w_sub w)\<lparr> pendingResources := [] \<rparr> \<rparr>) (processPendingResources w)"
    unfolding processPendingResources_def Let_def by (rule deliver_resources_extends)
  then show ?thesis by (simp add: extends_def)
qed

lemma processPendingResources_invoked:
  assumes "e \<in> set (pendingResources (w_sub w))"
    and "r_task_id (ev_record e) \<in> taskIds (w_sub w)"
  shows "invoked_during w (processPendingResources w) (OnResourceChange e)"
proof -
  let ?w = "w\<lparr> w_sub := (w_sub w)\<lparr> pendingResources := [] \<rparr> \<rparr>"
  have "invoked_during ?w (processPendingResources w) (OnResourceChange e)"
    unfolding processPendingResources_def Let_def
    using assms by (intro deliver_resources_invoked) simp_all
  then show ?thesis by (simp add: invoked_during_def)
qed

lemma updateTaskIds_extends: "extends w (updateTaskIds ids w)"
proof -
  have "extends (w\<lparr> w_sub := (w_sub w)\<lparr> taskIds := set ids \<rparr> \<rparr>) (updateTaskIds ids w)"
    unfolding updateTaskIds_def by (rule processPendingResources_extends)
  then show ?thesis by (simp add: extends_def)
qed

lemma updateTaskIds_invoked:
  assumes "e \<in> set (pendingResources (w_sub w))"
    and "r_task_id (ev_record e) \<in> set ids"
  shows "invoked_during w (updateTaskIds ids w) (OnResourceChange e)"
proof -
  let ?w = "w\<lparr> w_sub := (w_sub w)\<lparr> taskIds := set ids \<rparr> \<rparr>"
  have "invoked_during ?w (updateTaskIds ids w) (OnResourceChange e)"
    unfolding updateTaskIds_def
    using assms by (intro processPendingResources_invoked) simp_all
  then show ?thesis by (simp add: invoked_during_def)
qed


subsection \<open>Tasks and the subscriptions\<close>

lemma handleTaskChange_set_extends: "extends w (handleTaskChange_set e w)"
proof -
  have "extends w ((updateTaskIds ids w)\<lparr> w_store := d \<rparr>)" for ids d
    using updateTaskIds_extends[of w ids] by (simp add: extends_def)
  then show ?thesis
    by (simp add: handleTaskChange_set_def Let_def extends_def)
qed

lemma handleTaskChange_set_resources:
  assumes "ev_action te = Create"
    and "e \<in> set (pendingResources (w_sub w))"
    and "r_task_id (ev_record e) = t_id (ev_record te)"
  shows "invoked_during w (handleTaskChange_set te w) (OnResourceChange e) \<or>
         (w_sub (handleTaskChange_set te w) = w_sub w \<and>
          w_calls (handleTaskChange_set te w) = w_calls w)"
proof (cases "find (\<lambda>t. t_id t = t_id (ev_record te)) (tasks (w_store w)) \<noteq> None \<or>
              \<not> subscription (w_store w)")
  case True
  with assms(1) show ?thesis
    by (auto simp: handleTaskChange_set_def Let_def)
next
  case False
  let ?ids = "map t_id (tasks (handleTaskChange te (w_store w)))"
  have "r_task_id (ev_record e) \<in> set ?ids"
    using created_task_in_draft[OF assms(1)] assms(3) by simp
  with assms(2) have "invoked_during w (updateTaskIds ?ids w) (OnResourceChange e)"
    by (rule updateTaskIds_invoked)
  then have "invoked_during w (handleTaskChange_set te w) (OnResourceChange e)"
    using False assms(1)
    by (simp add: handleTaskChange_set_def Let_def invoked_during_def)
  then show ?thesis ..
qed

lemma onTaskChange_extends: "extends w (onTaskChange e w)"
proof -
  have "extends w (w\<lparr> w_calls := w_calls w @ [OnTaskChange e] \<rparr>)"
    by (simp add: extends_def)
  then show ?thesis
    unfolding onTaskChange_def using handleTaskChange_set_extends by (rule extends_trans)
qed

lemma onTaskChange_resources:
  assumes "ev_action te = Create"
    and "e \<in> set (pendingResources (w_sub w))"
    and "r_task_id (ev_record e) = t_id (ev_record te)"
  shows "invoked_during w (onTaskChange te w) (OnResourceChange e) \<or>
         e \<in> set (pendingResources (w_sub (onTaskChange te w)))"
proof -
  let ?w = "w\<lparr> w_calls := w_calls w @ [OnTaskChange te] \<rparr>"
  have ext: "extends w ?w" by (simp add: extends_def)
  from handleTaskChange_set_resources[OF assms(1), of e ?w] assms(2,3)
  have "invoked_during ?w (handleTaskChange_set te ?w) (OnResourceChange e) \<or>
        w_sub (handleTaskChange_set te ?w) = w_sub ?w"
    by auto
  then show ?thesis
  proof
    assume "invoked_during ?w (handleTaskChange_set te ?w) (OnResourceChange e)"
    with ext have "invoked_during w (handleTaskChange_set te ?w) (OnResourceChange e)"
      by (rule extends_then_invoked)
    then show ?thesis by (simp add: onTaskChange_def)
  next
    assume "w_sub (handleTaskChange_set te ?w) = w_sub ?w"
    with assms(2) show ?thesis by (simp add: onTaskChange_def)
  qed
qed

lemma tasks_event_delivers:
  assumes "e \<in> set (pendingResources (w_sub w))"
    and "ev_action te = Create"
    and "t_project_id (ev_record te) = projectId (w_sub w)"
    and "t_id (ev_record te) = r_task_id (ev_record e)"
  shows "invoked_during w (tasks_event te w) (OnResourceChange e)"
proof -
  let ?w' = "onTaskChange te w"
  let ?w'' = "?w'\<lparr> w_sub := (w_sub ?w')
      \<lparr> taskIds := insert (t_id (ev_record te)) (taskIds (w_sub ?w')) \<rparr> \<rparr>"
  have result: "tasks_event te w = processPendingResources ?w''"
    using assms(2,3) by (simp add: tasks_event_def Let_def)
  have same: "w_calls ?w'' = w_calls ?w'" by simp
  from onTaskChange_resources[OF assms(2,1)] assms(4)
  have "invoked_during w ?w' (OnResourceChange e) \<or> e \<in> set (pendingResources (w_sub ?w'))"
    by simp
  then show ?thesis
  proof
    assume "invoked_during w ?w' (OnResourceChange e)"
    then have "invoked_during w ?w'' (OnResourceChange e)"
      using same by (simp add: invoked_during_def)
    then show ?thesis
      unfolding result using processPendingResources_extends by (rule invoked_then_extends)
  next
    assume "e \<in> set (pendingResources (w_sub ?w'))"
    then have "invoked_during ?w'' (processPendingResources ?w'') (OnResourceChange e)"
      using assms(4) by (intro processPendingResources_invoked) simp_all
    moreover have "extends w ?w''"
      using onTaskChange_extends[of w te] by (simp add: extends_def)
    ultimately show ?thesis
      unfolding result by (rule extends_then_invoked[rotated])
  qed
qed

lemma resources_event_delivers:
  assumes "a \<in> set (pendingAllocations (w_sub w))"
    and "ev_action re = Create"
    and "r_task_id (ev_record re) \<in> taskIds (w_sub w)"
    and "r_id (ev_record re) = a_resource_id (ev_record a)"
  shows "invoked_during w (resources_event re w) (OnAllocationChange a)"
proof -
  let ?w' = "onResourceChange re w"
  let ?w'' = "?w'\<lparr> w_sub := (w_sub ?w')
      \<lparr> resourceIds := insert (r_id (ev_record re)) (resourceIds (w_sub ?w')) \<rparr> \<rparr>"
  have result: "resources_event re w = processPendingAllocations ?w''"
    using assms(2,3) by (simp add: resources_event_def Let_def)
  have same: "w_calls ?w'' = w_calls ?w'" by simp
  from onResourceChange_allocations[OF assms(2,1)] assms(4)
  have "invoked_during w ?w' (OnAllocationChange a) \<or>
        a \<in> set (pendingAllocations (w_sub ?w'))"
    by simp
  then show ?thesis
  proof
    assume "invoked_during w ?w' (OnAllocationChange a)"
    then have "invoked_during w ?w'' (OnAllocationChange a)"
      using same by (simp add: invoked_during_def)
    then show ?thesis
      unfolding result using processPendingAllocations_extends by (rule invoked_then_extends)
  next
    assume "a \<in> set (pendingAllocations (w_sub ?w'))"
    then have "invoked_during ?w'' (processPendingAllocations ?w'') (OnAllocationChange a)"
      using assms(4) by (intro processPendingAllocations_invoked) simp_all
    moreover have "extends w ?w''"
      using onResourceChange_extends[of w re] by (simp add: extends_def)
    ultimately show ?thesis
      unfolding result by (rule extends_then_invoked[rotated])
  qed
qed

lemma deliver_resources_unknown:
  "\<forall>x\<in>set es. r_task_id (ev_record x) \<notin> taskIds (w_sub w) \<Longrightarrow>
   fold deliver_resource es w = w"
  by (induction es) (simp_all add: deliver_resource_def)

lemma deliver_allocations_unknown:
  "\<forall>x\<in>set es. a_resource_id (ev_record x) \<notin> resourceIds (w_sub w) \<Longrightarrow>
   fold deliver_allocation es w = w"
  by (induction es) (simp_all add: deliver_allocation_def)

lemma processPendingResources_drops:
  "\<forall>x\<in>set (pendingResources (w_sub w)). r_task_id (ev_record x) \<notin> taskIds (w_sub w) \<Longrightarrow>
   processPendingResources w = w\<lparr> w_sub := (w_sub w)\<lparr> pendingResources := [] \<rparr> \<rparr>"
  by (simp add: processPendingResources_def Let_def deliver_resources_unknown)

lemma processPendingAllocations_drops:
  "\<forall>x\<in>set (pendingAllocations (w_sub w)).
      a_resource_id (ev_record x) \<notin> resourceIds (w_sub w) \<Longrightarrow>
   processPendingAllocations w = w\<lparr> w_sub := (w_sub w)\<lparr> pendingAllocations := [] \<rparr> \<rparr>"
  by (simp add: processPendingAllocations_def Let_def deliver_allocations_unknown)


text \<open>
  What the subscription does with an event whose parent it does not know. A
  resource \<open>create\<close> event whose task is not in the task membership set is
  appended to the queue and one retry is scheduled. While it is queued, the
  \<open>create\<close> event of its task, or \<open>updateTaskIds\<close> with the task's
  identifier, hands it to \<open>onResourceChange\<close>. Every run of
  \<open>processPendingResources\<close> (the retry included) empties the queue, and when no
  queued event has a known task it invokes no callback and leaves the store as
  it is. The same holds for an allocation \<open>create\<close> or \<open>update\<close> event
  whose resource is not known, with the resource's \<open>create\<close> event,
  \<open>updateResourceIds\<close> and \<open>processPendingAllocations\<close>.
\<close>

lemma orphan_event_queued_and_handed_over:
  "(ev_action e = Create \<and> r_task_id (ev_record e) \<notin> taskIds (w_sub w) \<longrightarrow>
      resources_event e w =
        w\<lparr> w_sub := (w_sub w)\<lparr> pendingResources := pendingResources (w_sub w) @ [e],
                               timers := timers (w_sub w) @ [RetryResources] \<rparr> \<rparr>) \<and>
   (e \<in> set (pendingResources (w_sub w)) \<and> ev_action te = Create \<and>
    t_project_id (ev_record te) = projectId (w_sub w) \<and>
    t_id (ev_record te) = r_task_id (ev_record e) \<longrightarrow>
      invoked_during w (tasks_event te w) (OnResourceChange e)) \<and>
   (e \<in> set (pendingResources (w_sub w)) \<and> r_task_id (ev_record e) \<in> set newTaskIds \<longrightarrow>
      invoked_during w (updateTaskIds newTaskIds w) (OnResourceChange e)) \<and>
   pendingResources (w_sub (processPendingResources w)) = [] \<and>
   ((\<forall>x\<in>set (pendingResources (w_sub w)). r_task_id (ev_record x) \<notin> taskIds (w_sub w)) \<longrightarrow>
      w_calls (processPendingResources w) = w_calls w \<and>
      w_store (processPendingResources w) = w_store w) \<and>
   ((ev_action a = Create \<or> ev_action a = Update) \<and>
    a_resource_id (ev_record a) \<notin> resourceIds (w_sub w) \<longrightarrow>
      allocations_event a w =
        w\<lparr> w_sub := (w_sub w)\<lparr> pendingAllocations := pendingAllocations (w_sub w) @ [a],
                               timers := timers (w_sub w) @ [RetryAllocations] \<rparr> \<rparr>) \<and>
   (a \<in> set (pendingAllocations (w_sub w)) \<and> ev_action re = Create \<and>
    r_task_id (ev_record re) \<in> taskIds (w_sub w) \<and>
    r_id (ev_record re) = a_resource_id (ev_record a) \<longrightarrow>
      invoked_during w (resources_event re w) (OnAllocationChange a)) \<and>
   (a \<in> set (pendingAllocations (w_sub w)) \<and>
    a_resource_id (ev_record a) \<in> set newResourceIds \<longrightarrow>
      invoked_during w (updateResourceIds newResourceIds w) (OnAllocationChange a)) \<and>
   pendingAllocations (w_sub (processPendingAllocations w)) = [] \<and>
   ((\<forall>x\<in>set (pendingAllocations (w_sub w)).
        a_resource_id (ev_record x) \<notin> resourceIds (w_sub w)) \<longrightarrow>
      w_calls (processPendingAllocations w) = w_calls w \<and>
      w_store (processPendingAllocations w) = w_store w)"
proof (intro conjI impI)
  assume "ev_action e = Create \<and> r_task_id (ev_record e) \<notin> taskIds (w_sub w)"
  then show "resources_event e w =
      w\<lparr> w_sub := (w_sub w)\<lparr> pendingResources := pendingResources (w_sub w) @ [e],
                             timers := timers (w_sub w) @ [RetryResources] \<rparr> \<rparr>"
    by (simp add: resources_event_def)
next
  assume "e \<in> set (pendingResources (w_sub w)) \<and> ev_action te = Create \<and>
    t_project_id (ev_record te) = projectId (w_sub w) \<and>
    t_id (ev_record te) = r_task_id (ev_record e)"
  then show "invoked_during w (tasks_event te w) (OnResourceChange e)"
    by (simp add: tasks_event_delivers)
next
  assume "e \<in> set (pendingResources (w_sub w)) \<and> r_task_id (ev_record e) \<in> set newTaskIds"
  then show "invoked_during w (updateTaskIds newTaskIds w) (OnResourceChange e)"
    by (simp add: updateTaskIds_invoked)
next
  show "pendingResources (w_sub (processPendingResources w)) = []"
    by (simp add: processPendingResources_frame)
next
  assume "\<forall>x\<in>set (pendingResources (w_sub w)). r_task_id (ev_record x) \<notin> taskIds (w_sub w)"
  then have "processPendingResources w = w\<lparr> w_sub := (w_sub w)\<lparr> pendingResources := [] \<rparr> \<rparr>"
    by (rule processPendingResources_drops)
  then show "w_calls (processPendingResources w) = w_calls w"
    and "w_store (processPendingResources w) = w_store w"
    by simp_all
next
  assume "(ev_action a = Create \<or> ev_action a = Update) \<and>
    a_resource_id (ev_record a) \<notin> resourceIds (w_sub w)"
  then show "allocations_event a w =
      w\<lparr> w_sub := (w_sub w)\<lparr> pendingAllocations := pendingAllocations (w_sub w) @ [a],
                             timers := timers (w_sub w) @ [RetryAllocations] \<rparr> \<rparr>"
    by (auto simp: allocations_event_def)
next
  assume "a \<in> set (pendingAllocations (w_sub w)) \<and> ev_action re = Create \<and>
    r_task_id (ev_record re) \<in> taskIds (w_sub w) \<and>
    r_id (ev_record re) = a_resource_id (ev_record a)"
  then show "invoked_during w (resources_event re w) (OnAllocationChange a)"
    by (simp add: resources_event_delivers)
next
  assume "a \<in> set (pendingAllocations (w_sub w)) \<and>
    a_resource_id (ev_record a) \<in> set newResourceIds"
  then show "invoked_during w (updateResourceIds newResourceIds w) (OnAllocationChange a)"
    by (simp add: updateResourceIds_invoked)
next
  show "pendingAllocations (w_sub (processPendingAllocations w)) = []"
    by (simp add: processPendingAllocations_sub)
next
  assume "\<forall>x\<in>set (pendingAllocations (w_sub w)).
      a_resource_id (ev_record x) \<notin> resourceIds (w_sub w)"
  then have "processPendingAllocations w =
      w\<lparr> w_sub := (w_sub w)\<lparr> pendingAllocations := [] \<rparr> \<rparr>"
    by (rule processPendingAllocations_drops)
  then show "w_calls (processPendingAllocations w) = w_calls w"
    and "w_store (processPendingAllocations w) = w_store w"
    by simp_all
qed

lemmas world_defs = subscribed_world_def early_resource_def
  late_task_def early_allocation_def create_event_def
  resources_event_def tasks_event_def allocations_event_def timer_fires_def
  onTaskChange_def handleTaskChange_set_def updateTaskIds_def processPendingResources_def
  deliver_resource_def onResourceChange_def handleResourceChange_set_def updateResourceIds_def
  processPendingAllocations_def deliver_allocation_def onAllocationChange_def
  handleTaskChange_def handleResourceChange_def handleAllocationChange_def
  initialState_def recompute_def example_task_def example_resource_def example_allocation_def
  Let_def

text \<open>
  C5. A resource \<open>create\<close> event that arrives before the \<open>create\<close> event of
  its task is queued, and once the task's event is processed it is to be
  delivered so that the resource appears under its task. With the subscription
  registered in the store, the task's event hands the queued event to
  \<open>onResourceChange\<close> from within the recipe of \<open>handleTaskChange\<close> (through
  \<open>updateTaskIds\<close>): the handler's own \<open>set\<close> commits the resource, and the
  outer recipe then commits its draft, which has the task and no resource. The
  queue is empty afterwards and the retry finds nothing: the store holds the
  task without its resource, where a delivery outside a recipe would have
  stored it. And when the retry runs before the task's event, it empties the
  queue without a callback, and the task's event delivers nothing. Likewise an
  allocation event queued for its resource is handed to \<open>onAllocationChange\<close>
  from within the recipe of \<open>handleResourceChange\<close>, and the store ends with
  the resource and without the allocation.
\<close>

theorem early_resource_event_lost:
  "pendingResources (w_sub (resources_event early_resource subscribed_world)) = [early_resource] \<and>
   timers (w_sub (resources_event early_resource subscribed_world)) = [RetryResources] \<and>
   w_calls (tasks_event late_task (resources_event early_resource subscribed_world)) =
     [OnTaskChange late_task, OnResourceChange early_resource] \<and>
   pendingResources
     (w_sub (tasks_event late_task (resources_event early_resource subscribed_world))) = [] \<and>
   tasks (w_store (tasks_event late_task (resources_event early_resource subscribed_world))) =
     [example_task ''t1'' ''Design'' 1] \<and>
   resources (w_store (tasks_event late_task (resources_event early_resource subscribed_world))) =
     [] \<and>
   resources
     (w_store (timer_fires
        (tasks_event late_task (resources_event early_resource subscribed_world)))) = [] \<and>
   resources (handleResourceChange early_resource
      (w_store (tasks_event late_task (resources_event early_resource subscribed_world)))) =
     [example_resource ''r1'' ''t1'' ''Alice''] \<and>
   w_calls (tasks_event late_task (timer_fires (resources_event early_resource subscribed_world))) =
     [OnTaskChange late_task] \<and>
   pendingResources
     (w_sub (tasks_event late_task (timer_fires (resources_event early_resource subscribed_world)))) =
     [] \<and>
   resources
     (w_store (tasks_event late_task (timer_fires (resources_event early_resource subscribed_world)))) =
     [] \<and>
   pendingAllocations
     (w_sub (allocations_event early_allocation (tasks_event late_task subscribed_world))) =
     [early_allocation] \<and>
   w_calls (resources_event early_resource
      (allocations_event early_allocation (tasks_event late_task subscribed_world))) =
     [OnTaskChange late_task, OnResourceChange early_resource,
      OnAllocationChange early_allocation] \<and>
   resources (w_store (resources_event early_resource
      (allocations_event early_allocation (tasks_event late_task subscribed_world)))) =
     [example_resource ''r1'' ''t1'' ''Alice''] \<and>
   allocations (w_store (resources_event early_resource
      (allocations_event early_allocation (tasks_event late_task subscribed_world)))) = []"
  by (simp add: world_defs)

section \<open>The derived data after a confirmation\<close>

text \<open>
  C8. The derived data are to be those of the current collections after any
  change. The recipe of a resolved \<open>setAllocationAsync\<close> is the one mutation
  that does not end with the recomputation. A cell holding 30% is repainted
  with 70% and an earlier call then confirms 30%: the allocations hold 30% and
  50%, whose sum \<open>computeTasksWithData\<close> gives as 80, and the task's total in
  \<open>tasksWithData\<close> is still 120.
\<close>

theorem confirmation_leaves_derived_data_stale:
  "map a_percentage (allocations confirmed_store) = [30, 50] \<and>
   map (\<lambda>tw. totalEffort (twa_computed tw)) (tasksWithData confirmed_store) = [120, 0] \<and>
   map (\<lambda>tw. totalEffort (twa_computed tw))
     (computeTasksWithData (tasks confirmed_store) (resources confirmed_store)
        (allocations confirmed_store)) = [80, 0] \<and>
   tasksWithData (recompute confirmed_store) \<noteq> tasksWithData confirmed_store"
proof -
  have a: "map a_percentage (allocations confirmed_store) = [30, 50]"
    by (simp add: confirmed_store_def setAllocationAsync_resolved_def setAllocation_def
        store_defs)
  have b: "map (\<lambda>tw. totalEffort (twa_computed tw)) (tasksWithData confirmed_store) = [120, 0]"
    by (simp add: confirmed_store_def setAllocationAsync_resolved_def setAllocation_def
        store_defs aggregation_defs)
  have c: "map (\<lambda>tw. totalEffort (twa_computed tw))
      (computeTasksWithData (tasks confirmed_store) (resources confirmed_store)
         (allocations confirmed_store)) = [80, 0]"
    by (simp add: confirmed_store_def setAllocationAsync_resolved_def setAllocation_def
        store_defs aggregation_defs)
  from b c have "map (\<lambda>tw. totalEffort (twa_computed tw)) (tasksWithData (recompute confirmed_store)) \<noteq>
      map (\<lambda>tw. totalEffort (twa_computed tw)) (tasksWithData confirmed_store)"
    by (simp add: recompute_def)
  then have "tasksWithData (recompute confirmed_store) \<noteq> tasksWithData confirmed_store"
    by metis
  with a b c show ?thesis
    by simp
qed

end
